theory Spec2Isabelle
  imports Main "HOL-Library.Sublist" "HOL-Library.AList"
begin

section \<open>Python values and exceptions\<close>

text \<open>
  A decoded JSON document, as \<open>json.loads\<close> returns it: \<open>None\<close>, \<open>bool\<close>, \<open>int\<close>,
  \<open>str\<close>, \<open>list\<close> and \<open>dict\<close> (string keys, in document order). Numbers are
  integers here; the only number the scrapers compute with is an epoch in
  milliseconds.
\<close>

datatype json =
    JNull
  | JBool bool
  | JInt int
  | JStr string
  | JList "json list"
  | JDict "(string \<times> json) list"

text \<open>
  The exception classes that the two modules raise, catch or let through.
  \<open>HTTPError\<close> and \<open>URLError\<close> are the classes of \<open>urllib.error\<close> (the first a
  subclass of the second); \<open>RequestsHTTPError\<close> is the class raised by
  \<open>Response.raise_for_status\<close>; \<open>ClientError\<close> is the transport error of the
  \<open>aiohttp\<close> session; \<open>UnicodeDecodeError\<close> and \<open>JSONDecodeError\<close> are subclasses
  of \<open>ValueError\<close>.
\<close>

datatype pyexc =
    KeyError json
  | TypeError
  | AttributeError
  | IndexError
  | ValueError
  | UnicodeDecodeError
  | JSONDecodeError
  | OverflowError
  | HTTPError
  | URLError
  | RequestsHTTPError
  | ClientError
  | OSError
  | PageLoadError string
  | InvalidURL string

text \<open>Sequencing of a computation that may raise: the first exception ends it.\<close>

definition exc_bind :: "pyexc + 'a \<Rightarrow> ('a \<Rightarrow> pyexc + 'b) \<Rightarrow> pyexc + 'b" where
  "exc_bind m f = (case m of Inl e \<Rightarrow> Inl e | Inr v \<Rightarrow> f v)"

section \<open>Strings\<close>

text \<open>
  \<open>str.lower\<close> on the ASCII letters; every other character is left as it is.
\<close>

definition lower_char :: "char \<Rightarrow> char" where
  "lower_char c =
     (case c of Char b0 b1 b2 b3 b4 b5 b6 b7 \<Rightarrow>
        if 65 \<le> (of_char c :: nat) \<and> (of_char c :: nat) \<le> 90
        then Char b0 b1 b2 b3 b4 True b6 b7 else c)"

definition lower :: "string \<Rightarrow> string" where
  "lower s = map lower_char s"

text \<open>\<open>str(n)\<close> for an integer: decimal digits, with a minus sign when negative.\<close>

definition digit_char :: "nat \<Rightarrow> char" where
  "digit_char d = ''0123456789'' ! d"

function str_nat :: "nat \<Rightarrow> string" where
  "str_nat n =
     (if n < 10 then [digit_char n] else str_nat (n div 10) @ [digit_char (n mod 10)])"
  by pat_completeness auto
termination
  by (relation "measure id") auto

declare str_nat.simps [simp del]

definition str_int :: "int \<Rightarrow> string" where
  "str_int i = (if i < 0 then CHR ''-'' # str_nat (nat (- i)) else str_nat (nat i))"

text \<open>\<open>s in t\<close> for two strings: \<open>s\<close> occurs in \<open>t\<close> as a contiguous run.\<close>

fun str_contains :: "string \<Rightarrow> string \<Rightarrow> bool" where
  "str_contains s [] = (s = [])"
| "str_contains s (c # cs) = (prefix s (c # cs) \<or> str_contains s cs)"

section \<open>Named tuples and enums\<close>

text \<open>
  Modelled from the spec: the declarations of \<open>isubrip.enums\<close> are not among the
  sources. The members are those the two modules name (\<open>ITUNES\<close>, \<open>APPLETV\<close>;
  \<open>NORMAL\<close>, \<open>FORCED\<close>, \<open>CC\<close>; \<open>VTT\<close>) and, for the second file format the spec
  speaks of, \<open>SRT\<close>.
\<close>

datatype DataSource = ITUNES | APPLETV

datatype SubtitlesType = NORMAL | CC | FORCED

datatype SubtitlesFormat = SRT | VTT

fun SubtitlesType_name :: "SubtitlesType \<Rightarrow> string" where
  "SubtitlesType_name NORMAL = ''NORMAL''"
| "SubtitlesType_name CC = ''CC''"
| "SubtitlesType_name FORCED = ''FORCED''"

fun SubtitlesFormat_name :: "SubtitlesFormat \<Rightarrow> string" where
  "SubtitlesFormat_name SRT = ''SRT''"
| "SubtitlesFormat_name VTT = ''VTT''"

text \<open>
  Modelled from the spec: the named tuples of \<open>isubrip.namedtuples\<close> are not among the
  sources. Their fields are those the two modules pass to the constructors, in that
  order, under the names the downloader reads them by.

  \<open>PlaylistData(itunes_id, url)\<close>; both components are whatever the response held.
\<close>

datatype PlaylistData = PlaylistData json json

text \<open>
  \<open>MovieData(data_source, name, release_year, playlists)\<close>. The scrapers put the raw
  JSON title into \<open>name\<close>; the downloader reads it as a \<open>str\<close>.
\<close>

record 'n MovieData =
  data_source :: DataSource
  name :: 'n
  release_year :: int
  playlists :: "PlaylistData list"

text \<open>
  \<open>SubtitlesData(language_code, language_name, subtitles_type, playlist_url)\<close>. The
  track selector copies attributes of the playlist that may be \<open>None\<close>; the
  downloader reads them as \<open>str\<close>.
\<close>

record 's SubtitlesData =
  language_code :: 's
  language_name :: 's
  subtitles_type :: SubtitlesType
  playlist_url :: 's

section \<open>playlist\_downloader.py\<close>

subsection \<open>File names\<close>

text \<open>
  \<open>PlaylistDownloader._format_file_name\<close>. \<open>format_title\<close> lives in
  \<open>isubrip.utils\<close> and is passed in.
\<close>

definition format_file_name ::
  "(string \<Rightarrow> string) \<Rightarrow> string \<Rightarrow> int \<Rightarrow> string \<Rightarrow> SubtitlesType \<Rightarrow> SubtitlesFormat \<Rightarrow> string"
where
  "format_file_name format_title movie_title year lang_code sub_type file_format =
     (let movie_release_year_str =
            (if \<not> str_contains (str_int year) movie_title then ''.'' @ str_int year else '''');
          file_name = format_title movie_title @ movie_release_year_str @ ''.iT.WEB.'' @ lang_code;
          file_name = (if sub_type \<noteq> NORMAL
                       then file_name @ ''.'' @ lower (SubtitlesType_name sub_type)
                       else file_name)
      in file_name @ ''.'' @ lower (SubtitlesFormat_name file_format))"

subsection \<open>The libraries the downloader calls\<close>

text \<open>
  One entry of \<open>M3U8.media\<close>: the attributes of an \<open>EXT-X-MEDIA\<close> tag that
  \<open>find_subtitles\<close> reads (\<open>type\<close>, \<open>group_id\<close>, \<open>language\<close>, \<open>name\<close>, \<open>forced\<close>,
  \<open>characteristics\<close>, \<open>uri\<close>), each \<open>None\<close> when the tag does not carry it.
\<close>

record Media =
  media_type :: "string option"
  group_id :: "string option"
  language :: "string option"
  media_name :: "string option"
  forced :: "string option"
  characteristics :: "string option"
  uri :: "string option"

text \<open>
  A loaded playlist: \<open>segments\<close> holds the \<open>absolute_uri\<close> of each segment, in playlist
  order; \<open>media\<close> the media entries of a main playlist.
\<close>

record M3U8 =
  segments :: "string list"
  media :: "Media list"

text \<open>
  The response of \<open>session.get\<close>: \<open>read\<close> is what \<open>await data.read()\<close> gives, the body
  bytes or a transport error.
\<close>

record ClientResponse =
  status :: int
  read :: "pyexc + string"

text \<open>
  What a \<open>PlaylistDownloader\<close> reaches outside the module: \<open>m3u8.load\<close>, the GET of
  its \<open>aiohttp\<close> session, \<open>bytes.decode('utf-8')\<close>, the class \<open>Subtitles\<close> of
  \<open>isubrip.subtitles\<close> (constructor, \<open>loads\<close>, \<open>append_subtitles\<close>, \<open>dumps\<close>; the
  object is of type \<open>'sub\<close>), and whether \<open>open(path, 'w')\<close> raises.
\<close>

record 'sub downloader_env =
  m3u8_load :: "string \<Rightarrow> pyexc + M3U8"
  session_get :: "string \<Rightarrow> pyexc + ClientResponse"
  decode_utf8 :: "string \<Rightarrow> pyexc + string"
  Subtitles_new :: "string \<Rightarrow> 'sub"
  Subtitles_loads :: "string \<Rightarrow> pyexc + 'sub"
  append_subtitles :: "'sub \<Rightarrow> 'sub \<Rightarrow> pyexc + 'sub"
  dumps :: "'sub \<Rightarrow> SubtitlesFormat \<Rightarrow> pyexc + string"
  open_error :: "string \<Rightarrow> pyexc option"

subsection \<open>Concurrent tasks\<close>

text \<open>
  \<open>run_until_complete(asyncio.gather(*tasks))\<close>. The tasks finish in some order, the
  schedule: a list of task positions. A task that finishes with a result leaves it in
  the slot of its own position; the first task that finishes with an exception ends
  the wait with that exception. When the schedule is over, the slots are returned in
  task order; \<open>None\<close> says that some task never finished, so the wait never returns.
\<close>

fun complete_tasks ::
  "(pyexc + 'a) list \<Rightarrow> nat list \<Rightarrow> 'a option list \<Rightarrow> pyexc + 'a option list"
where
  "complete_tasks tasks [] slots = Inr slots"
| "complete_tasks tasks (i # sched) slots =
     (if i < length tasks
      then (case tasks ! i of
              Inl e \<Rightarrow> Inl e
            | Inr v \<Rightarrow> complete_tasks tasks sched (slots[i := Some v]))
      else complete_tasks tasks sched slots)"

definition gather :: "(pyexc + 'a) list \<Rightarrow> nat list \<Rightarrow> (pyexc + 'a list) option" where
  "gather tasks sched =
     (case complete_tasks tasks sched (replicate (length tasks) None) of
        Inl e \<Rightarrow> Some (Inl e)
      | Inr slots \<Rightarrow> (case those slots of None \<Rightarrow> None | Some vs \<Rightarrow> Some (Inr vs)))"

text \<open>A schedule in which each of \<open>n\<close> tasks finishes once.\<close>

definition completion_order :: "nat \<Rightarrow> nat list \<Rightarrow> bool" where
  "completion_order n sched = (distinct sched \<and> set sched = {0..<n})"

subsection \<open>Downloading\<close>

text \<open>\<open>PlaylistDownloader._download_segment\<close>; the status of the response is not read.\<close>

definition download_segment :: "'sub downloader_env \<Rightarrow> string \<Rightarrow> pyexc + string" where
  "download_segment env segment_url =
     exc_bind (session_get env segment_url) (\<lambda>data.
     exc_bind (read data) (\<lambda>content.
     decode_utf8 env content))"

text \<open>The loop of \<open>get_subtitles\<close> over the downloaded segments.\<close>

fun append_segments :: "'sub downloader_env \<Rightarrow> 'sub \<Rightarrow> string list \<Rightarrow> pyexc + 'sub" where
  "append_segments env subtitles [] = Inr subtitles"
| "append_segments env subtitles (segment # rest) =
     exc_bind (Subtitles_loads env segment) (\<lambda>loaded.
     exc_bind (append_subtitles env subtitles loaded) (\<lambda>subtitles'.
     append_segments env subtitles' rest))"

text \<open>\<open>PlaylistDownloader.get_subtitles\<close>, under a schedule of the segment downloads.\<close>

definition get_subtitles ::
  "'sub downloader_env \<Rightarrow> nat list \<Rightarrow> string SubtitlesData \<Rightarrow> (pyexc + 'sub) option"
where
  "get_subtitles env sched subtitles_data =
     (let subtitles = Subtitles_new env (language_code subtitles_data) in
      case m3u8_load env (playlist_url subtitles_data) of
        Inl e \<Rightarrow> Some (Inl e)
      | Inr playlist \<Rightarrow>
          (let async_tasks = map (download_segment env) (segments playlist) in
           case gather async_tasks sched of
             None \<Rightarrow> None
           | Some (Inl e) \<Rightarrow> Some (Inl e)
           | Some (Inr downloaded) \<Rightarrow> Some (append_segments env subtitles downloaded)))"

text \<open>\<open>os.path.join\<close> of two components (POSIX).\<close>

definition path_join :: "string \<Rightarrow> string \<Rightarrow> string" where
  "path_join a b =
     (if prefix ''/'' b then b
      else if a = [] \<or> last a = CHR ''/'' then a @ b
      else a @ ''/'' @ b)"

text \<open>
  \<open>PlaylistDownloader.download_subtitles\<close>. The files are a map from path to
  content; the result is the returned path or the exception, with the files as the
  call leaves them. \<open>open(path, 'w')\<close> creates or empties the file before
  \<open>get_subtitles\<close> runs, since the call is the argument of \<open>f.write\<close> inside the
  \<open>with\<close> block.
\<close>

definition download_subtitles ::
  "'sub downloader_env \<Rightarrow> (string \<Rightarrow> string) \<Rightarrow> nat list \<Rightarrow> (string \<rightharpoonup> string) \<Rightarrow>
   string MovieData \<Rightarrow> string SubtitlesData \<Rightarrow> string \<Rightarrow> SubtitlesFormat \<Rightarrow>
   ((pyexc + string) \<times> (string \<rightharpoonup> string)) option"
where
  "download_subtitles env format_title sched files movie_data subtitles_data output_dir file_format =
     (let file_name = format_file_name format_title
                        (name movie_data) (release_year movie_data)
                        (language_code subtitles_data) (subtitles_type subtitles_data)
                        file_format;
          path = path_join output_dir file_name
      in case open_error env path of
           Some e \<Rightarrow> Some (Inl e, files)
         | None \<Rightarrow>
             (let opened = files(path \<mapsto> [])
              in case get_subtitles env sched subtitles_data of
                   None \<Rightarrow> None
                 | Some (Inl e) \<Rightarrow> Some (Inl e, opened)
                 | Some (Inr subtitles) \<Rightarrow>
                     (case dumps env subtitles file_format of
                        Inl e \<Rightarrow> Some (Inl e, opened)
                      | Inr text \<Rightarrow> Some (Inr path, opened(path \<mapsto> text)))))"

text \<open>
  Modelled from the spec: \<open>format_title\<close> of \<open>isubrip.utils\<close> is not among the
  sources. The spec calls its result the slugified title and gives
  \<open>"Example Movie"\<close> \<open>\<mapsto>\<close> \<open>"example.movie"\<close>: letters in lower case, each space a dot.
\<close>

definition format_title :: "string \<Rightarrow> string" where
  "format_title title = map (\<lambda>c. if c = CHR '' '' then CHR ''.'' else lower_char c) title"

section \<open>scraper.py\<close>

subsection \<open>Operations on decoded JSON\<close>

text \<open>
  \<open>isinstance(x, ValueError)\<close>, for the \<open>except ValueError\<close> clauses, and the
  exceptions caught around \<open>m3u8.load\<close>: \<open>ValueError\<close> and \<open>urllib\<close>'s
  \<open>HTTPError\<close>.
\<close>

fun is_ValueError :: "pyexc \<Rightarrow> bool" where
  "is_ValueError ValueError = True"
| "is_ValueError UnicodeDecodeError = True"
| "is_ValueError JSONDecodeError = True"
| "is_ValueError e = False"

definition caught :: "pyexc \<Rightarrow> bool" where
  "caught e = (is_ValueError e \<or> e = HTTPError)"

fun is_str :: "json \<Rightarrow> bool" where
  "is_str (JStr s) = True"
| "is_str j = False"

fun is_list :: "json \<Rightarrow> bool" where
  "is_list (JList xs) = True"
| "is_list j = False"

fun is_dict :: "json \<Rightarrow> bool" where
  "is_dict (JDict kvs) = True"
| "is_dict j = False"

text \<open>Truth value of an object, as \<open>if x:\<close> takes it.\<close>

fun truthy :: "json \<Rightarrow> bool" where
  "truthy JNull = False"
| "truthy (JBool b) = b"
| "truthy (JInt i) = (i \<noteq> 0)"
| "truthy (JStr s) = (s \<noteq> [])"
| "truthy (JList xs) = (xs \<noteq> [])"
| "truthy (JDict kvs) = (kvs \<noteq> [])"

text \<open>Whether an object can be hashed (used as a key or looked up in a set).\<close>

fun hashable :: "json \<Rightarrow> bool" where
  "hashable (JList xs) = False"
| "hashable (JDict kvs) = False"
| "hashable j = True"

text \<open>An object used as a sequence index: \<open>int\<close>, and \<open>bool\<close> as 0 or 1.\<close>

fun as_index :: "json \<Rightarrow> int option" where
  "as_index (JInt i) = Some i"
| "as_index (JBool b) = Some (if b then 1 else 0)"
| "as_index j = None"

text \<open>\<open>xs[i]\<close> on a sequence: a negative index counts from the end.\<close>

definition seq_index :: "'a list \<Rightarrow> int \<Rightarrow> pyexc + 'a" where
  "seq_index xs i =
     (let n = int (length xs); j = (if i < 0 then n + i else i)
      in if 0 \<le> j \<and> j < n then Inr (xs ! nat j) else Inl IndexError)"

text \<open>
  \<open>obj[key]\<close>. A dict holds each key once (as \<open>json.loads\<close> builds it) and all its
  keys are strings; a missing key is a \<open>KeyError\<close>, an unhashable key a \<open>TypeError\<close>.
  Lists and strings take integer indices; nothing else can be subscripted.
\<close>

fun subscript :: "json \<Rightarrow> json \<Rightarrow> pyexc + json" where
  "subscript (JDict kvs) key =
     (if \<not> hashable key then Inl TypeError
      else case key of
             JStr k \<Rightarrow> (case map_of kvs k of Some v \<Rightarrow> Inr v | None \<Rightarrow> Inl (KeyError key))
           | _ \<Rightarrow> Inl (KeyError key))"
| "subscript (JList xs) key =
     (case as_index key of Some i \<Rightarrow> seq_index xs i | None \<Rightarrow> Inl TypeError)"
| "subscript (JStr s) key =
     (case as_index key of
        Some i \<Rightarrow> exc_bind (seq_index s i) (\<lambda>c. Inr (JStr [c]))
      | None \<Rightarrow> Inl TypeError)"
| "subscript obj key = Inl TypeError"

text \<open>\<open>obj.get(key)\<close>: only a dict has the method.\<close>

fun dict_get :: "json \<Rightarrow> string \<Rightarrow> pyexc + json" where
  "dict_get (JDict kvs) k = Inr (case map_of kvs k of Some v \<Rightarrow> v | None \<Rightarrow> JNull)"
| "dict_get obj k = Inl AttributeError"

text \<open>\<open>obj.values()\<close>: only a dict has the method.\<close>

fun dict_values :: "json \<Rightarrow> pyexc + json list" where
  "dict_values (JDict kvs) = Inr (map snd kvs)"
| "dict_values obj = Inl AttributeError"

text \<open>
  The items a \<open>for\<close> loop takes from an object: the elements of a list, the keys of a
  dict, the characters of a string; nothing else is iterable.
\<close>

fun py_iter :: "json \<Rightarrow> pyexc + json list" where
  "py_iter (JList xs) = Inr xs"
| "py_iter (JDict kvs) = Inr (map (\<lambda>kv. JStr (fst kv)) kvs)"
| "py_iter (JStr s) = Inr (map (\<lambda>c. JStr [c]) s)"
| "py_iter obj = Inl TypeError"

text \<open>\<open>x // 1000\<close>: floor division on \<open>int\<close> (and \<open>bool\<close>, an \<open>int\<close>).\<close>

fun floordiv_1000 :: "json \<Rightarrow> pyexc + int" where
  "floordiv_1000 (JInt i) = Inr (i div 1000)"
| "floordiv_1000 (JBool b) = Inr ((if b then 1 else 0) div 1000)"
| "floordiv_1000 j = Inl TypeError"

subsection \<open>Dates\<close>

text \<open>
  The proleptic Gregorian calendar of \<open>datetime\<close>: day 1 is 0001-01-01, and
  1970-01-01 is day 719163. \<open>year_of_ordinal\<close> follows \<open>_ord2ymd\<close>.
\<close>

definition is_leap :: "int \<Rightarrow> bool" where
  "is_leap y = (y mod 4 = 0 \<and> (y mod 100 \<noteq> 0 \<or> y mod 400 = 0))"

definition days_in_month :: "int \<Rightarrow> int \<Rightarrow> int" where
  "days_in_month y m =
     (if m = 2 then (if is_leap y then 29 else 28)
      else if m = 4 \<or> m = 6 \<or> m = 9 \<or> m = 11 then 30 else 31)"

definition year_of_ordinal :: "int \<Rightarrow> int" where
  "year_of_ordinal ordinal =
     (let n = ordinal - 1;
          n400 = n div 146097; n = n mod 146097;
          n100 = n div 36524; n = n mod 36524;
          n4 = n div 1461; n = n mod 1461;
          n1 = n div 365;
          year = n400 * 400 + 1 + n100 * 100 + n4 * 4 + n1
      in if n1 = 4 \<or> n100 = 4 then year - 1 else year)"

definition max_ordinal :: int where
  "max_ordinal = 3652059"

text \<open>
  \<open>(datetime(1970, 1, 1) + timedelta(seconds=s)).year\<close>: the day count of a
  \<open>timedelta\<close> is bounded by 999999999, and the sum must be a date of the years 1 to
  9999.
\<close>

definition epoch_plus_seconds_year :: "int \<Rightarrow> pyexc + int" where
  "epoch_plus_seconds_year s =
     (let days = s div 86400
      in if days < - 999999999 \<or> 999999999 < days then Inl OverflowError
         else if 719163 + days < 1 \<or> max_ordinal < 719163 + days then Inl OverflowError
         else Inr (year_of_ordinal (719163 + days)))"

text \<open>
  \<open>datetime.fromtimestamp(s).year\<close>, in local time, as CPython computes it on a 64-bit
  POSIX platform: \<open>utcoffset\<close> gives the offset of the local zone from UTC, in seconds, at
  an instant. A timestamp outside the range of \<open>time_t\<close> is an \<open>OverflowError\<close>; a local
  time whose year does not fit the \<open>int\<close> field of \<open>struct tm\<close> (years since 1900) is the
  \<open>OSError\<close> of \<open>localtime\<close>; a year outside 1 to 9999 is a \<open>ValueError\<close>.
\<close>

definition fromtimestamp_year :: "(int \<Rightarrow> int) \<Rightarrow> int \<Rightarrow> pyexc + int" where
  "fromtimestamp_year utcoffset s =
     (if s < - (2 ^ 63) \<or> 2 ^ 63 \<le> s then Inl OverflowError
      else (let days = (s + utcoffset s) div 86400;
                year = year_of_ordinal (719163 + days)
            in if year - 1900 < - 2147483648 \<or> 2147483647 < year - 1900 then Inl OSError
               else if year < 1 \<or> 9999 < year then Inl ValueError
               else Inr year))"

text \<open>
  \<open>datetime.strptime(s, '%Y-%m-%d').year\<close>. The directives match as the regular
  expressions of \<open>_strptime\<close> do: four digits for the year; \<open>1[0-2]|0[1-9]|[1-9]\<close> for
  the month; \<open>3[01]|[12]\d|0[1-9]|[1-9]| [1-9]\<close> for the day; the whole string must be
  used, and the three numbers must name a date.
\<close>

definition is_digit :: "char \<Rightarrow> bool" where
  "is_digit c = (48 \<le> (of_char c :: nat) \<and> (of_char c :: nat) \<le> 57)"

definition digit_val :: "char \<Rightarrow> int" where
  "digit_val c = int (of_char c) - 48"

definition parse_year :: "string \<Rightarrow> (int \<times> string) option" where
  "parse_year s =
     (case s of
        a # b # c # d # rest \<Rightarrow>
          if is_digit a \<and> is_digit b \<and> is_digit c \<and> is_digit d
          then Some (1000 * digit_val a + 100 * digit_val b + 10 * digit_val c + digit_val d, rest)
          else None
      | _ \<Rightarrow> None)"

definition two_digit_month :: "char \<Rightarrow> char \<Rightarrow> bool" where
  "two_digit_month a b =
     ((a = CHR ''1'' \<and> is_digit b \<and> digit_val b \<le> 2)
      \<or> (a = CHR ''0'' \<and> is_digit b \<and> 1 \<le> digit_val b))"

definition one_digit :: "char \<Rightarrow> bool" where
  "one_digit a = (is_digit a \<and> 1 \<le> digit_val a)"

text \<open>The month and the dash after it; the result carries what follows the dash.\<close>

definition parse_month :: "string \<Rightarrow> (int \<times> string) option" where
  "parse_month s =
     (case s of
        a # b # c # rest \<Rightarrow>
          if two_digit_month a b \<and> c = CHR ''-'' then Some (10 * digit_val a + digit_val b, rest)
          else if one_digit a \<and> b = CHR ''-'' then Some (digit_val a, c # rest)
          else None
      | [a, b] \<Rightarrow> if one_digit a \<and> b = CHR ''-'' then Some (digit_val a, []) else None
      | _ \<Rightarrow> None)"

definition two_digit_day :: "char \<Rightarrow> char \<Rightarrow> bool" where
  "two_digit_day a b =
     ((a = CHR ''3'' \<and> is_digit b \<and> digit_val b \<le> 1)
      \<or> ((a = CHR ''1'' \<or> a = CHR ''2'') \<and> is_digit b)
      \<or> (a = CHR ''0'' \<and> is_digit b \<and> 1 \<le> digit_val b))"

definition parse_day :: "string \<Rightarrow> int option" where
  "parse_day s =
     (case s of
        [a, b] \<Rightarrow>
          if two_digit_day a b then Some (10 * digit_val a + digit_val b)
          else if a = CHR '' '' \<and> one_digit b then Some (digit_val b)
          else None
      | [a] \<Rightarrow> if one_digit a then Some (digit_val a) else None
      | _ \<Rightarrow> None)"

definition strptime_year :: "json \<Rightarrow> pyexc + int" where
  "strptime_year date_string =
     (case date_string of
        JStr s \<Rightarrow>
          (case parse_year s of
             None \<Rightarrow> Inl ValueError
           | Some (y, after_year) \<Rightarrow>
               (case after_year of
                  [] \<Rightarrow> Inl ValueError
                | dash # after_dash \<Rightarrow>
                    if dash \<noteq> CHR ''-'' then Inl ValueError
                    else (case parse_month after_dash of
                            None \<Rightarrow> Inl ValueError
                          | Some (m, after_month) \<Rightarrow>
                              (case parse_day after_month of
                                 None \<Rightarrow> Inl ValueError
                               | Some d \<Rightarrow>
                                   if 1 \<le> y \<and> d \<le> days_in_month y m then Inr y
                                   else Inl ValueError))))
      | _ \<Rightarrow> Inl TypeError)"

subsection \<open>What the scraper reaches outside the module\<close>

text \<open>The response of \<open>requests.get\<close>; \<open>content_type\<close> is \<open>headers['content-type']\<close>.\<close>

record Response =
  status_code :: int
  content_type :: "string option"
  content :: string

text \<open>
  A tag of a parsed page: its name, its attributes, and its children as \<open>str\<close> gives
  them. A page is the list of its tags in document order.
\<close>

record Tag =
  tag_name :: string
  attrs :: "(string \<times> string) list"
  contents :: "string list"

text \<open>
  \<open>m3u8_load_nth n url\<close> is what the call \<open>m3u8.load(url)\<close> does when \<open>n\<close> loads were
  made before it in the same run: the network may answer the same address differently
  each time. \<open>requests_get\<close> takes the address and the query parameters;
  \<open>itunes_url_regex\<close> and \<open>appletv_url_regex\<close> are \<open>re.fullmatch\<close> with the two patterns
  of \<open>isubrip.constants\<close>, giving group 1, and groups 2 and 3; \<open>storefronts_file\<close> is
  the decoded content of the storefronts file, or the exception of opening or decoding
  it; \<open>utcoffset\<close> is the local time zone.
\<close>

record scraper_env =
  m3u8_load_nth :: "nat \<Rightarrow> json \<Rightarrow> pyexc + M3U8"
  requests_get :: "string \<Rightarrow> (string \<times> json) list \<Rightarrow> pyexc + Response"
  json_loads :: "string \<Rightarrow> pyexc + json"
  BeautifulSoup :: "string \<Rightarrow> Tag list"
  itunes_url_regex :: "string \<Rightarrow> string option"
  appletv_url_regex :: "string \<Rightarrow> (string \<times> string) option"
  APPLETV_API_BASE_PARAMS :: "(string \<times> json) list"
  APPLETV_MOVIE_API_URL :: string
  storefronts_file :: "pyexc + json"
  utcoffset :: "int \<Rightarrow> int"

text \<open>\<open>obj["key"]\<close> with a literal key, and a chain of such lookups.\<close>

definition item :: "json \<Rightarrow> string \<Rightarrow> pyexc + json" where
  "item obj k = subscript obj (JStr k)"

fun item_path :: "json \<Rightarrow> string list \<Rightarrow> pyexc + json" where
  "item_path obj [] = Inr obj"
| "item_path obj (k # ks) = exc_bind (item obj k) (\<lambda>v. item_path v ks)"

text \<open>
  The guarded load of a candidate playlist,
  \<open>try: m3u8.load(playlist_url)\<close> \<open>except (ValueError, HTTPError): continue\<close>,
  when \<open>loaded\<close> lists the addresses loaded so far: the load succeeds, or its exception
  is caught and the candidate skipped, or its exception leaves the function.
\<close>

datatype load_outcome = Loaded | Skipped | Raised pyexc

definition try_load :: "scraper_env \<Rightarrow> json list \<Rightarrow> json \<Rightarrow> load_outcome" where
  "try_load env loaded url =
     (case m3u8_load_nth env (length loaded) url of
        Inr playlist \<Rightarrow> Loaded
      | Inl e \<Rightarrow> if caught e then Skipped else Raised e)"

text \<open>
  What the load number \<open>k\<close> of a run did, when the run loaded the addresses \<open>loaded\<close>
  (the first load has number 0); \<open>None\<close> when the run made no such load.
\<close>

definition load_at :: "scraper_env \<Rightarrow> json list \<Rightarrow> nat \<Rightarrow> (pyexc + M3U8) option" where
  "load_at env loaded k =
     (if k < length loaded then Some (m3u8_load_nth env k (loaded ! k)) else None)"

subsection \<open>iTunes, JSON response\<close>

text \<open>
  The loops return the playlist address when the function returns from inside them,
  \<open>None\<close> when they run to their end, or the exception; and with it the addresses
  loaded so far, in order.
\<close>

fun itunes_json_assets ::
  "scraper_env \<Rightarrow> json list \<Rightarrow> json list \<Rightarrow> (pyexc + json option) \<times> json list"
where
  "itunes_json_assets env [] loaded = (Inr None, loaded)"
| "itunes_json_assets env (asset # rest) loaded =
     (case item asset ''hlsUrl'' of
        Inl e \<Rightarrow> (Inl e, loaded)
      | Inr hls_url \<Rightarrow>
          (case try_load env loaded hls_url of
             Skipped \<Rightarrow> itunes_json_assets env rest (loaded @ [hls_url])
           | Raised e \<Rightarrow> (Inl e, loaded @ [hls_url])
           | Loaded \<Rightarrow> (Inr (Some hls_url), loaded @ [hls_url])))"

fun itunes_json_offers ::
  "scraper_env \<Rightarrow> json list \<Rightarrow> json list \<Rightarrow> (pyexc + json option) \<times> json list"
where
  "itunes_json_offers env [] loaded = (Inr None, loaded)"
| "itunes_json_offers env (offer # rest) loaded =
     (case dict_get offer ''type'' of
        Inl e \<Rightarrow> (Inl e, loaded)
      | Inr offer_type \<Rightarrow>
          if is_str offer_type \<and> (offer_type = JStr ''buy'' \<or> offer_type = JStr ''rent'')
          then (case dict_get offer ''assets'' of
                  Inl e \<Rightarrow> (Inl e, loaded)
                | Inr (JList assets) \<Rightarrow>
                    if length assets > 0
                    then (case itunes_json_assets env assets loaded of
                            (Inr None, loaded') \<Rightarrow> itunes_json_offers env rest loaded'
                          | (Inr (Some hls_url), loaded') \<Rightarrow> (Inr (Some hls_url), loaded')
                          | (Inl e, loaded') \<Rightarrow> (Inl e, loaded'))
                    else itunes_json_offers env rest loaded
                | Inr other \<Rightarrow> itunes_json_offers env rest loaded)
          else itunes_json_offers env rest loaded)"

text \<open>
  The reads of \<open>_find_playlist_data_itunes_json_\<close> before its loop: identifier, title,
  release year and the offers to go through.
\<close>

definition itunes_json_fields :: "json \<Rightarrow> pyexc + (json \<times> json \<times> int \<times> json list)" where
  "itunes_json_fields json_data =
     exc_bind (item_path json_data [''pageData'', ''id'']) (\<lambda>itunes_id.
     exc_bind (item_path json_data [''storePlatformData'', ''product-dv'', ''results'']) (\<lambda>results.
     exc_bind (subscript results itunes_id) (\<lambda>movie_data.
     exc_bind (item movie_data ''nameRaw'') (\<lambda>movie_title.
     exc_bind (item movie_data ''releaseDate'') (\<lambda>release_date.
     exc_bind (strptime_year release_date) (\<lambda>movie_release_year.
     exc_bind (item movie_data ''offers'') (\<lambda>offers.
     exc_bind (py_iter offers) (\<lambda>offers.
     Inr (itunes_id, movie_title, movie_release_year, offers)))))))))"

text \<open>\<open>Scraper._find_playlist_data_itunes_json_\<close>.\<close>

definition find_playlist_data_itunes_json ::
  "scraper_env \<Rightarrow> json \<Rightarrow> (pyexc + json MovieData) \<times> json list"
where
  "find_playlist_data_itunes_json env json_data =
     (case itunes_json_fields json_data of
        Inl e \<Rightarrow> (Inl e, [])
      | Inr (itunes_id, movie_title, movie_release_year, offers) \<Rightarrow>
          (case itunes_json_offers env offers [] of
             (Inl e, loaded) \<Rightarrow> (Inl e, loaded)
           | (Inr (Some hls_url), loaded) \<Rightarrow>
               (Inr \<lparr>data_source = ITUNES, name = movie_title, release_year = movie_release_year,
                     playlists = [PlaylistData itunes_id hls_url]\<rparr>, loaded)
           | (Inr None, loaded) \<Rightarrow>
               (Inr \<lparr>data_source = ITUNES, name = movie_title, release_year = movie_release_year,
                     playlists = []\<rparr>, loaded)))"

subsection \<open>iTunes, HTML page\<close>

text \<open>
  \<open>html_data.find(name, attrs=...)\<close>: the first tag of that name that carries each
  wanted attribute with the wanted value.
\<close>

definition find_tag :: "Tag list \<Rightarrow> string \<Rightarrow> (string \<times> string) list \<Rightarrow> Tag option" where
  "find_tag html_data wanted_name wanted_attrs =
     find (\<lambda>t. tag_name t = wanted_name
                \<and> list_all (\<lambda>kv. map_of (attrs t) (fst kv) = Some (snd kv)) wanted_attrs)
          html_data"

text \<open>\<open>str.strip\<close>, for the ASCII white space.\<close>

definition is_space :: "char \<Rightarrow> bool" where
  "is_space c = (let n = (of_char c :: nat) in (9 \<le> n \<and> n \<le> 13) \<or> (28 \<le> n \<and> n \<le> 32))"

definition strip :: "string \<Rightarrow> string" where
  "strip s = rev (dropWhile is_space (rev (dropWhile is_space s)))"

text \<open>
  The test on the asset the loop is at,
  \<open>isinstance(asset, dict) and isinstance(asset.get("hlsUrl"), str)\<close>, and the address
  the loop body reads, \<open>item["attributes"]["assets"][0]["hlsUrl"]\<close>.
\<close>

definition asset_has_url :: "json \<Rightarrow> bool" where
  "asset_has_url asset =
     (is_dict asset \<and> (case dict_get asset ''hlsUrl'' of Inr u \<Rightarrow> is_str u | Inl e \<Rightarrow> False))"

definition first_asset_url :: "json \<Rightarrow> pyexc + json" where
  "first_asset_url offer_item =
     exc_bind (item_path offer_item [''attributes'', ''assets'']) (\<lambda>assets.
     exc_bind (subscript assets (JInt 0)) (\<lambda>first_asset.
     item first_asset ''hlsUrl''))"

text \<open>The loop over the assets of one offer item.\<close>

fun itunes_html_assets ::
  "scraper_env \<Rightarrow> json \<Rightarrow> json list \<Rightarrow> json list \<Rightarrow> (pyexc + json option) \<times> json list"
where
  "itunes_html_assets env offer_item [] loaded = (Inr None, loaded)"
| "itunes_html_assets env offer_item (asset # rest) loaded =
     (if asset_has_url asset
      then (case first_asset_url offer_item of
              Inl e \<Rightarrow> (Inl e, loaded)
            | Inr hls_url \<Rightarrow>
                (case try_load env loaded hls_url of
                   Skipped \<Rightarrow> itunes_html_assets env offer_item rest (loaded @ [hls_url])
                 | Raised e \<Rightarrow> (Inl e, loaded @ [hls_url])
                 | Loaded \<Rightarrow> (Inr (Some hls_url), loaded @ [hls_url])))
      else itunes_html_assets env offer_item rest loaded)"

fun itunes_html_items ::
  "scraper_env \<Rightarrow> json list \<Rightarrow> json list \<Rightarrow> (pyexc + json option) \<times> json list"
where
  "itunes_html_items env [] loaded = (Inr None, loaded)"
| "itunes_html_items env (included_item # rest) loaded =
     (case dict_get included_item ''type'' of
        Inl e \<Rightarrow> (Inl e, loaded)
      | Inr item_type \<Rightarrow>
          if is_str item_type \<and> item_type = JStr ''offer''
          then (case dict_get included_item ''attributes'' of
                  Inl e \<Rightarrow> (Inl e, loaded)
                | Inr (JDict attributes) \<Rightarrow>
                    (case dict_get (JDict attributes) ''assets'' of
                       Inl e \<Rightarrow> (Inl e, loaded)
                     | Inr (JList assets) \<Rightarrow>
                         if length assets > 0
                         then (case itunes_html_assets env included_item assets loaded of
                                 (Inr None, loaded') \<Rightarrow> itunes_html_items env rest loaded'
                               | (Inr (Some hls_url), loaded') \<Rightarrow>
                                   (Inr (Some hls_url), loaded')
                               | (Inl e, loaded') \<Rightarrow> (Inl e, loaded'))
                         else itunes_html_items env rest loaded
                     | Inr other \<Rightarrow> itunes_html_items env rest loaded)
                | Inr other \<Rightarrow> itunes_html_items env rest loaded)
          else itunes_html_items env rest loaded)"

text \<open>
  The reads of \<open>_find_playlist_data_itunes_html_\<close> from the decoded shoebox data, once
  \<open>included\<close> is known to be a list: title, release year, and the included items.
\<close>

definition itunes_html_fields :: "json \<Rightarrow> pyexc + (json \<times> int \<times> json list)" where
  "itunes_html_fields movie_data =
     exc_bind (item_path movie_data [''data'', ''attributes'', ''name'']) (\<lambda>movie_title.
     exc_bind (item_path movie_data [''data'', ''attributes'', ''releaseDate'']) (\<lambda>release_date.
     exc_bind (strptime_year release_date) (\<lambda>movie_release_year.
     exc_bind (item movie_data ''included'') (\<lambda>included.
     exc_bind (py_iter included) (\<lambda>included.
     Inr (movie_title, movie_release_year, included))))))"

text \<open>\<open>Scraper._find_playlist_data_itunes_html_\<close>, from the decoded shoebox data on.\<close>

definition itunes_html_shoebox ::
  "scraper_env \<Rightarrow> string \<Rightarrow> json \<Rightarrow> (pyexc + json MovieData) \<times> json list"
where
  "itunes_html_shoebox env itunes_id shoebox_data =
     (case exc_bind (subscript shoebox_data (JStr itunes_id)) (\<lambda>entry. dict_get entry ''included'') of
        Inl e \<Rightarrow> (Inl e, [])
      | Inr included \<Rightarrow>
          if is_list included
          then (case exc_bind (subscript shoebox_data (JStr itunes_id)) itunes_html_fields of
                  Inl e \<Rightarrow> (Inl e, [])
                | Inr (movie_title, movie_release_year, included_items) \<Rightarrow>
                    (case itunes_html_items env included_items [] of
                       (Inl e, loaded) \<Rightarrow> (Inl e, loaded)
                     | (Inr (Some hls_url), loaded) \<Rightarrow>
                         (Inr \<lparr>data_source = ITUNES, name = movie_title,
                               release_year = movie_release_year,
                               playlists = [PlaylistData (JStr itunes_id) hls_url]\<rparr>, loaded)
                     | (Inr None, loaded) \<Rightarrow>
                         (Inr \<lparr>data_source = ITUNES, name = movie_title,
                               release_year = movie_release_year, playlists = []\<rparr>, loaded)))
          else (Inl (PageLoadError ''Invalid shoebox data.''), []))"

text \<open>\<open>Scraper._find_playlist_data_itunes_html_\<close>.\<close>

definition find_playlist_data_itunes_html ::
  "scraper_env \<Rightarrow> Tag list \<Rightarrow> (pyexc + json MovieData) \<times> json list"
where
  "find_playlist_data_itunes_html env html_data =
     (case find_tag html_data ''meta'' [(''name'', ''apple:content_id'')] of
        None \<Rightarrow> (Inl (PageLoadError ''HTML page did not load properly.''), [])
      | Some itunes_id_tag \<Rightarrow>
          (case map_of (attrs itunes_id_tag) ''content'' of
             None \<Rightarrow> (Inl (KeyError (JStr ''content'')), [])
           | Some itunes_id \<Rightarrow>
               (case find_tag html_data ''script''
                       [(''id'', ''shoebox-ember-data-store''), (''type'', ''fastboot/shoebox'')] of
                  None \<Rightarrow> (Inl (PageLoadError ''fastboot/shoebox data could not be found.''), [])
                | Some shoebox_data_tag \<Rightarrow>
                    (case contents shoebox_data_tag of
                       [] \<Rightarrow> (Inl IndexError, [])
                     | first_child # others \<Rightarrow>
                         (case json_loads env (strip first_child) of
                            Inl e \<Rightarrow> (Inl e, [])
                          | Inr shoebox_data \<Rightarrow> itunes_html_shoebox env itunes_id shoebox_data)))))"

subsection \<open>AppleTV, JSON response\<close>

text \<open>
  The release year of \<open>_find_playlist_data_appletv_json_\<close>: the epoch in milliseconds
  is floor-divided by 1000; a positive epoch is converted in local time, any other one
  is added to 1970-01-01.
\<close>

definition appletv_release_year :: "scraper_env \<Rightarrow> json \<Rightarrow> pyexc + int" where
  "appletv_release_year env release_date =
     exc_bind (floordiv_1000 release_date) (\<lambda>release_epoch.
     if release_epoch > 0 then fromtimestamp_year (utcoffset env) release_epoch
     else epoch_plus_seconds_year release_epoch)"

text \<open>
  The loop over the offers of one playable: the address at which the loop breaks,
  \<open>None\<close> when it runs to its end.
\<close>

fun appletv_offers ::
  "scraper_env \<Rightarrow> json list \<Rightarrow> json list \<Rightarrow> (pyexc + json option) \<times> json list"
where
  "appletv_offers env [] loaded = (Inr None, loaded)"
| "appletv_offers env (offer # rest) loaded =
     (case item offer ''hlsUrl'' of
        Inl e \<Rightarrow> (Inl e, loaded)
      | Inr hls_url \<Rightarrow>
          (case try_load env loaded hls_url of
             Skipped \<Rightarrow> appletv_offers env rest (loaded @ [hls_url])
           | Raised e \<Rightarrow> (Inl e, loaded @ [hls_url])
           | Loaded \<Rightarrow> (Inr (Some hls_url), loaded @ [hls_url])))"

text \<open>
  The loop over the playables. \<open>itunes_ids_set\<close> holds the members of the set of that
  name: the function tests membership in it and never adds to it. The test hashes the
  identifier, so one that cannot be hashed raises.
\<close>

fun appletv_playables ::
  "scraper_env \<Rightarrow> json list \<Rightarrow> json list \<Rightarrow> PlaylistData list \<Rightarrow> json list \<Rightarrow>
   (pyexc + PlaylistData list) \<times> json list"
where
  "appletv_playables env itunes_ids_set [] found loaded = (Inr found, loaded)"
| "appletv_playables env itunes_ids_set (playable # rest) found loaded =
     (case item playable ''isItunes'' of
        Inl e \<Rightarrow> (Inl e, loaded)
      | Inr is_itunes \<Rightarrow>
          if truthy is_itunes
          then (case item playable ''externalId'' of
                  Inl e \<Rightarrow> (Inl e, loaded)
                | Inr itunes_id \<Rightarrow>
                    if \<not> hashable itunes_id then (Inl TypeError, loaded)
                    else if itunes_id \<notin> set itunes_ids_set
                    then (case exc_bind (item_path playable [''itunesMediaApiData'', ''offers''])
                                 py_iter of
                            Inl e \<Rightarrow> (Inl e, loaded)
                          | Inr offers \<Rightarrow>
                              (case appletv_offers env offers loaded of
                                 (Inl e, loaded') \<Rightarrow> (Inl e, loaded')
                               | (Inr (Some hls_url), loaded') \<Rightarrow>
                                   appletv_playables env itunes_ids_set rest
                                     (found @ [PlaylistData itunes_id hls_url]) loaded'
                               | (Inr None, loaded') \<Rightarrow>
                                   appletv_playables env itunes_ids_set rest found loaded'))
                    else appletv_playables env itunes_ids_set rest found loaded)
          else appletv_playables env itunes_ids_set rest found loaded)"

text \<open>The reads before the loop: title, release year, and the playables.\<close>

definition appletv_json_fields :: "scraper_env \<Rightarrow> json \<Rightarrow> pyexc + (json \<times> int \<times> json list)" where
  "appletv_json_fields env json_data =
     exc_bind (item_path json_data [''data'', ''content'', ''title'']) (\<lambda>movie_title.
     exc_bind (item_path json_data [''data'', ''content'', ''releaseDate'']) (\<lambda>release_date.
     exc_bind (appletv_release_year env release_date) (\<lambda>movie_release_year.
     exc_bind (item_path json_data [''data'', ''playables'']) (\<lambda>playables_data.
     exc_bind (dict_values playables_data) (\<lambda>playables.
     Inr (movie_title, movie_release_year, playables))))))"

text \<open>\<open>Scraper._find_playlist_data_appletv_json_\<close>.\<close>

definition find_playlist_data_appletv_json ::
  "scraper_env \<Rightarrow> json \<Rightarrow> (pyexc + json MovieData) \<times> json list"
where
  "find_playlist_data_appletv_json env json_data =
     (case appletv_json_fields env json_data of
        Inl e \<Rightarrow> (Inl e, [])
      | Inr (movie_title, movie_release_year, playables) \<Rightarrow>
          (case appletv_playables env [] playables [] [] of
             (Inl e, loaded) \<Rightarrow> (Inl e, loaded)
           | (Inr found, loaded) \<Rightarrow>
               (Inr \<lparr>data_source = APPLETV, name = movie_title,
                     release_year = movie_release_year, playlists = found\<rparr>, loaded)))"

subsection \<open>Fetching the page\<close>

text \<open>\<open>Response.raise_for_status\<close>: a status from 400 to 599 raises.\<close>

definition raise_for_status :: "Response \<Rightarrow> pyexc + unit" where
  "raise_for_status request =
     (if 400 \<le> status_code request \<and> status_code request < 600 then Inl RequestsHTTPError
      else Inr ())"

text \<open>\<open>str.upper\<close> on the ASCII letters.\<close>

definition upper_char :: "char \<Rightarrow> char" where
  "upper_char c =
     (case c of Char b0 b1 b2 b3 b4 b5 b6 b7 \<Rightarrow>
        if 97 \<le> (of_char c :: nat) \<and> (of_char c :: nat) \<le> 122
        then Char b0 b1 b2 b3 b4 False b6 b7 else c)"

definition upper :: "string \<Rightarrow> string" where
  "upper s = map upper_char s"

text \<open>
  The iTunes branch of \<open>Scraper.get_movie_data\<close>, from the response on: the declared
  content type alone selects the one function that reads the response.
\<close>

definition get_movie_data_itunes ::
  "scraper_env \<Rightarrow> Response \<Rightarrow> (pyexc + json MovieData) \<times> json list"
where
  "get_movie_data_itunes env request =
     (case raise_for_status request of
        Inl e \<Rightarrow> (Inl e, [])
      | Inr u \<Rightarrow>
          (case content_type request of
             None \<Rightarrow> (Inl (KeyError (JStr ''content-type'')), [])
           | Some declared \<Rightarrow>
               if str_contains ''application/json'' declared
               then (case json_loads env (content request) of
                       Inl e \<Rightarrow>
                         if e = JSONDecodeError
                         then (Inl (PageLoadError ''Recieved an invalid JSON response.''), [])
                         else (Inl e, [])
                     | Inr json_data \<Rightarrow> find_playlist_data_itunes_json env json_data)
               else if str_contains ''text/html'' declared \<and> status_code request \<noteq> 404
               then find_playlist_data_itunes_html env (BeautifulSoup env (content request))
               else (Inl (PageLoadError
                       ''Recieved an invalid response. Pleas assure the URL is valid.''), [])))"

text \<open>
  The AppleTV branch, given groups 2 and 3 of the match. \<open>atv_storefronts\<close> is the
  class attribute \<open>Scraper._atv_storefronts\<close>, read from the file when it is empty;
  the branch returns it as it leaves it.
\<close>

definition get_movie_data_appletv ::
  "scraper_env \<Rightarrow> json \<Rightarrow> string \<Rightarrow> string \<Rightarrow>
   ((pyexc + json MovieData) \<times> json list) \<times> json"
where
  "get_movie_data_appletv env atv_storefronts storefront movie_id =
     (case (if \<not> truthy atv_storefronts then storefronts_file env else Inr atv_storefronts) of
        Inl e \<Rightarrow> ((Inl e, []), atv_storefronts)
      | Inr storefronts \<Rightarrow>
          (case subscript storefronts (JStr (upper storefront)) of
             Inl e \<Rightarrow> ((Inl e, []), storefronts)
           | Inr sf \<Rightarrow>
               (let request_params =
                      AList.update ''sf'' sf (APPLETV_API_BASE_PARAMS env)
                in case requests_get env (APPLETV_MOVIE_API_URL env @ movie_id) request_params of
                     Inl e \<Rightarrow> ((Inl e, []), storefronts)
                   | Inr request \<Rightarrow>
                       (case raise_for_status request of
                          Inl e \<Rightarrow> ((Inl e, []), storefronts)
                        | Inr u \<Rightarrow>
                            (case json_loads env (content request) of
                               Inl e \<Rightarrow> ((Inl e, []), storefronts)
                             | Inr json_data \<Rightarrow>
                                 (find_playlist_data_appletv_json env json_data, storefronts))))))"

text \<open>\<open>Scraper.get_movie_data\<close>.\<close>

definition get_movie_data ::
  "scraper_env \<Rightarrow> json \<Rightarrow> string \<Rightarrow> ((pyexc + json MovieData) \<times> json list) \<times> json"
where
  "get_movie_data env atv_storefronts url =
     (case itunes_url_regex env url of
        Some itunes_url \<Rightarrow>
          (case requests_get env itunes_url [] of
             Inl e \<Rightarrow> ((Inl e, []), atv_storefronts)
           | Inr request \<Rightarrow> (get_movie_data_itunes env request, atv_storefronts))
      | None \<Rightarrow>
          (case appletv_url_regex env url of
             Some (storefront, movie_id) \<Rightarrow>
               get_movie_data_appletv env atv_storefronts storefront movie_id
           | None \<Rightarrow>
               ((Inl (InvalidURL (url @ '' is not a valid iTunes/AppleTV movie URL.'')), []),
                atv_storefronts)))"

subsection \<open>Subtitle tracks of a main playlist\<close>

text \<open>
  The loop of \<open>Scraper.find_subtitles\<close>, with the filter already in lower case. The
  function is a generator: the result is what it yields, in order, and the exception
  that ends the iteration, if one does.
\<close>

fun find_subtitles_loop ::
  "string list option \<Rightarrow> Media list \<Rightarrow> string option SubtitlesData list \<times> pyexc option"
where
  "find_subtitles_loop subtitles_filter [] = ([], None)"
| "find_subtitles_loop subtitles_filter (playlist # rest) =
     (if media_type playlist = Some ''SUBTITLES''
         \<and> (group_id playlist = Some ''subtitles_ak''
            \<or> group_id playlist = Some ''subtitles_vod-ak-amt.tv.apple.com'')
      then
        (let lang_code = language playlist;
             lang_name = media_name playlist;
             sub_type = (if forced playlist = Some ''YES'' then FORCED
                         else if (case characteristics playlist of
                                    None \<Rightarrow> False
                                  | Some cs \<Rightarrow> str_contains ''public.accessibility'' cs)
                         then CC else NORMAL);
             yielded = \<lparr>language_code = lang_code, language_name = lang_name,
                        subtitles_type = sub_type, playlist_url = uri playlist\<rparr>
         in case subtitles_filter of
              None \<Rightarrow>
                (case find_subtitles_loop subtitles_filter rest of
                   (later, raised) \<Rightarrow> (yielded # later, raised))
            | Some wanted \<Rightarrow>
                (case lang_code of
                   None \<Rightarrow> ([], Some AttributeError)
                 | Some code \<Rightarrow>
                     if \<not> (lower code \<in> set wanted
                            \<or> (case lang_name of None \<Rightarrow> False | Some n \<Rightarrow> n \<in> set wanted))
                     then find_subtitles_loop subtitles_filter rest
                     else (case find_subtitles_loop subtitles_filter rest of
                             (later, raised) \<Rightarrow> (yielded # later, raised))))
      else find_subtitles_loop subtitles_filter rest)"

text \<open>\<open>Scraper.find_subtitles\<close>: the filter entries are put in lower case first.\<close>

definition find_subtitles ::
  "M3U8 \<Rightarrow> string list option \<Rightarrow> string option SubtitlesData list \<times> pyexc option"
where
  "find_subtitles main_playlist subtitles_filter =
     find_subtitles_loop (map_option (map lower) subtitles_filter) (media main_playlist)"

subsection \<open>Responses whose shape parses\<close>

text \<open>
  What the loops of the two JSON scrapers need to read a response without raising. A
  candidate carries \<open>hlsUrl\<close>. An iTunes offer is a dict, and when its \<open>assets\<close> are a list
  each of them is a candidate. An AppleTV playable carries \<open>isItunes\<close>, and when that is
  true also a hashable \<open>externalId\<close> and, under \<open>itunesMediaApiData\<close>, iterable \<open>offers\<close>
  that are candidates.
\<close>

definition candidate_shape :: "json \<Rightarrow> bool" where
  "candidate_shape c = (case item c ''hlsUrl'' of Inr u \<Rightarrow> True | Inl e \<Rightarrow> False)"

definition itunes_offer_shape :: "json \<Rightarrow> bool" where
  "itunes_offer_shape offer =
     (is_dict offer
      \<and> (case dict_get offer ''assets'' of
            Inr (JList assets) \<Rightarrow> list_all candidate_shape assets
          | _ \<Rightarrow> True))"

definition appletv_playable_shape :: "json \<Rightarrow> bool" where
  "appletv_playable_shape playable =
     (case item playable ''isItunes'' of
        Inl e \<Rightarrow> False
      | Inr is_itunes \<Rightarrow>
          if truthy is_itunes
          then (case item playable ''externalId'' of
                  Inl e \<Rightarrow> False
                | Inr itunes_id \<Rightarrow>
                    hashable itunes_id
                    \<and> (case exc_bind (item_path playable [''itunesMediaApiData'', ''offers''])
                               py_iter of
                          Inl e \<Rightarrow> False
                        | Inr offers \<Rightarrow> list_all candidate_shape offers))
          else True)"

subsection \<open>The candidates of a response\<close>

text \<open>
  The addresses a response offers for loading, in document order: the \<open>hlsUrl\<close> of each
  candidate that carries one; for the iTunes JSON response those of the assets of each
  offer whose \<open>assets\<close> are a list, for the AppleTV response those of the offers of each
  playable.
\<close>

definition candidate_urls :: "json list \<Rightarrow> json list" where
  "candidate_urls candidates =
     concat (map (\<lambda>c. case item c ''hlsUrl'' of Inr u \<Rightarrow> [u] | Inl e \<Rightarrow> []) candidates)"

definition itunes_candidates :: "json list \<Rightarrow> json list" where
  "itunes_candidates offers =
     concat (map (\<lambda>offer. case dict_get offer ''assets'' of
                             Inr (JList assets) \<Rightarrow> candidate_urls assets
                           | _ \<Rightarrow> [])
                 offers)"

definition appletv_candidates :: "json list \<Rightarrow> json list" where
  "appletv_candidates playables =
     concat (map (\<lambda>p. case exc_bind (item_path p [''itunesMediaApiData'', ''offers''])
                               py_iter of
                         Inr offers \<Rightarrow> candidate_urls offers
                       | Inl e \<Rightarrow> [])
                 playables)"

section \<open>Concrete inputs\<close>

text \<open>
  A playlist of three segments and a downloader whose \<open>Subtitles\<close> object is the list of
  the segment texts appended so far. The second segment is answered with status 404 and
  a body; in \<open>failing_env\<close> the GET of the third segment raises.
\<close>

definition demo_playlist :: M3U8 where
  "demo_playlist = \<lparr>segments = [''seg0'', ''seg1'', ''seg2''], media = []\<rparr>"

definition demo_env :: "string list downloader_env" where
  "demo_env =
     \<lparr> m3u8_load = (\<lambda>url. Inr demo_playlist),
       session_get = (\<lambda>url. if url = ''seg1'' then Inr \<lparr>status = 404, read = Inr ''cue-404''\<rparr>
                             else Inr \<lparr>status = 200, read = Inr (''cue-'' @ url)\<rparr>),
       decode_utf8 = (\<lambda>content. Inr content),
       Subtitles_new = (\<lambda>code. []),
       Subtitles_loads = (\<lambda>text. Inr [text]),
       append_subtitles = (\<lambda>subtitles other. Inr (subtitles @ other)),
       dumps = (\<lambda>subtitles fmt. Inr (concat subtitles)),
       open_error = (\<lambda>path. None) \<rparr>"

definition failing_env :: "string list downloader_env" where
  "failing_env = demo_env \<lparr> session_get := (\<lambda>url. if url = ''seg2'' then Inl ClientError
                             else Inr \<lparr>status = 200, read = Inr (''cue-'' @ url)\<rparr>) \<rparr>"

definition demo_subtitles_data :: "string SubtitlesData" where
  "demo_subtitles_data =
     \<lparr>language_code = ''en'', language_name = ''English'', subtitles_type = NORMAL,
      playlist_url = ''main''\<rparr>"

definition demo_movie_data :: "string MovieData" where
  "demo_movie_data = \<lparr>data_source = ITUNES, name = ''Example Movie'', release_year = 2021, playlists = []\<rparr>"

text \<open>
  A network for the scrapers: two playlists that load, one host that cannot be reached
  (\<open>URLError\<close>), and \<open>HTTPError\<close> for every other address; the documents of a
  movie with identifier 1500 in the three response shapes; and a store that answers one
  address with a JSON document without fields and another with the HTML page of the
  movie, which the HTML parser reads into \<open>demo_html\<close>.
\<close>

definition empty_playlist :: M3U8 where
  "empty_playlist = \<lparr>segments = [], media = []\<rparr>"

definition demo_load :: "nat \<Rightarrow> json \<Rightarrow> pyexc + M3U8" where
  "demo_load n url =
     (if url = JStr ''https://hls.example/a.m3u8'' \<or> url = JStr ''https://hls.example/b.m3u8''
      then Inr empty_playlist
      else if url = JStr ''https://down.example/c.m3u8'' then Inl URLError
      else Inl HTTPError)"

definition itunes_json_page :: "json list \<Rightarrow> json" where
  "itunes_json_page offers =
     JDict [(''pageData'', JDict [(''id'', JStr ''1500'')]),
            (''storePlatformData'',
               JDict [(''product-dv'',
                 JDict [(''results'',
                   JDict [(''1500'',
                     JDict [(''nameRaw'', JStr ''Example Movie''),
                            (''releaseDate'', JStr ''2021-07-09''),
                            (''offers'', JList offers)])])])])]"

definition asset :: "string \<Rightarrow> json" where
  "asset url = JDict [(''hlsUrl'', JStr url)]"

definition buy_offer :: "json list \<Rightarrow> json" where
  "buy_offer assets = JDict [(''type'', JStr ''buy''), (''assets'', JList assets)]"

definition appletv_page :: "json \<Rightarrow> (string \<times> json) list \<Rightarrow> json" where
  "appletv_page release_date playables =
     JDict [(''data'',
        JDict [(''content'', JDict [(''title'', JStr ''Example Movie''),
                                    (''releaseDate'', release_date)]),
               (''playables'', JDict playables)])]"

definition playable :: "string \<Rightarrow> string list \<Rightarrow> json" where
  "playable external_id urls =
     JDict [(''isItunes'', JBool True), (''externalId'', JStr external_id),
            (''itunesMediaApiData'', JDict [(''offers'', JList (map asset urls))])]"

definition shoebox_page :: "json list \<Rightarrow> json" where
  "shoebox_page included =
     JDict [(''1500'',
        JDict [(''data'', JDict [(''attributes'',
                  JDict [(''name'', JStr ''Example Movie''), (''releaseDate'', JStr ''2021-07-09'')])]),
               (''included'', JList included)])]"

definition html_offer :: "json list \<Rightarrow> json" where
  "html_offer assets = JDict [(''type'', JStr ''offer''), (''attributes'', JDict [(''assets'', JList assets)])]"

definition demo_html :: "Tag list" where
  "demo_html =
     [\<lparr>tag_name = ''meta'', attrs = [(''name'', ''apple:content_id''), (''content'', ''1500'')], contents = []\<rparr>,
      \<lparr>tag_name = ''script'', attrs = [(''type'', ''fastboot/shoebox''), (''id'', ''shoebox-ember-data-store'')],
        contents = ['' {shoebox} '']\<rparr>]"

definition demo_scraper_env :: scraper_env where
  "demo_scraper_env =
     \<lparr> m3u8_load_nth = demo_load,
       requests_get = (\<lambda>url params.
          if url = ''https://itunes.apple.com/us/movie/example/id1500''
          then Inr \<lparr>status_code = 200, content_type = Some ''application/json; charset=utf-8'',
                    content = ''{}''\<rparr>
          else if url = ''https://itunes.apple.com/us/movie/example/id1501''
          then Inr \<lparr>status_code = 200, content_type = Some ''text/html; charset=utf-8'',
                    content = ''<html>1500</html>''\<rparr>
          else Inr \<lparr>status_code = 404, content_type = Some ''text/xml'', content = []\<rparr>),
       json_loads = (\<lambda>text. if text = ''{}'' then Inr (JDict [])
                       else if text = ''{shoebox}''
                       then Inr (shoebox_page [html_offer [asset ''https://hls.example/a.m3u8'']])
                       else Inl JSONDecodeError),
       BeautifulSoup = (\<lambda>text. if text = ''<html>1500</html>'' then demo_html else []),
       itunes_url_regex = (\<lambda>url. if prefix ''https://itunes.apple.com/'' url then Some url
                             else None),
       appletv_url_regex = (\<lambda>url. None),
       APPLETV_API_BASE_PARAMS = [],
       APPLETV_MOVIE_API_URL = ''https://tv.apple.com/api/uts/v3/movies/'',
       storefronts_file = Inr (JDict [(''US'', JInt 143441)]),
       utcoffset = (\<lambda>t. 0) \<rparr>"

text \<open>The same machine in a time zone eight hours west of UTC.\<close>

definition pacific_env :: scraper_env where
  "pacific_env = demo_scraper_env \<lparr> utcoffset := (\<lambda>t. - 28800) \<rparr>"

definition english_track :: Media where
  "english_track =
     \<lparr>media_type = Some ''SUBTITLES'', group_id = Some ''subtitles_ak'', language = Some ''en'',
      media_name = Some ''English'', forced = Some ''NO'', characteristics = None,
      uri = Some ''https://hls.example/en.m3u8''\<rparr>"

section \<open>Theorems\<close>

subsection \<open>Concurrent tasks\<close>

lemma those_map_Some: "those (map Some vs) = Some vs"
  by (induction vs) auto

lemma complete_tasks_all_succeed:
  assumes "tasks = map Inr vs" and "length slots = length vs"
  shows "complete_tasks tasks sched slots =
           Inr (map (\<lambda>i. if i \<in> set sched then Some (vs ! i) else slots ! i) [0..<length vs])"
  using assms
proof (induction sched arbitrary: slots)
  case Nil
  have "map ((!) slots) [0..<length slots] = slots" by (rule map_nth)
  with Nil show ?case by simp
next
  case (Cons i sched)
  show ?case
  proof (cases "i < length vs")
    case True
    have "complete_tasks tasks (i # sched) slots = complete_tasks tasks sched (slots[i := Some (vs ! i)])"
      using True Cons.prems by simp
    also have "\<dots> = Inr (map (\<lambda>j. if j \<in> set sched then Some (vs ! j) else (slots[i := Some (vs ! i)]) ! j) [0..<length vs])"
      using Cons.IH [of "slots[i := Some (vs ! i)]"] Cons.prems by simp
    also have "\<dots> = Inr (map (\<lambda>j. if j \<in> set (i # sched) then Some (vs ! j) else slots ! j) [0..<length vs])"
      using Cons.prems by (auto simp: nth_list_update)
    finally show ?thesis .
  next
    case False
    then have "complete_tasks tasks (i # sched) slots = complete_tasks tasks sched slots"
      using Cons.prems by simp
    also have "\<dots> = Inr (map (\<lambda>j. if j \<in> set sched then Some (vs ! j) else slots ! j) [0..<length vs])"
      using Cons.IH Cons.prems by simp
    also have "\<dots> = Inr (map (\<lambda>j. if j \<in> set (i # sched) then Some (vs ! j) else slots ! j) [0..<length vs])"
      using False by auto
    finally show ?thesis .
  qed
qed

lemma gather_all_succeed:
  assumes "tasks = map Inr vs" and "completion_order (length tasks) sched"
  shows "gather tasks sched = Some (Inr vs)"
proof -
  have set: "set sched = {0..<length vs}"
    using assms by (simp add: completion_order_def)
  have "complete_tasks tasks sched (replicate (length tasks) None) =
          Inr (map (\<lambda>i. if i \<in> set sched then Some (vs ! i) else replicate (length tasks) None ! i) [0..<length vs])"
    using assms(1) by (intro complete_tasks_all_succeed) simp_all
  also have "map (\<lambda>i. if i \<in> set sched then Some (vs ! i) else replicate (length tasks) None ! i) [0..<length vs]
             = map Some vs"
    using set by (auto intro: nth_equalityI)
  finally show ?thesis
    by (simp add: gather_def those_map_Some)
qed

lemma complete_tasks_some_fails:
  assumes "i \<in> set sched" and "i < length tasks" and "tasks ! i = Inl e"
  shows "\<exists>j e'. j \<in> set sched \<and> j < length tasks \<and> tasks ! j = Inl e'
                \<and> complete_tasks tasks sched slots = Inl e'"
  using assms
proof (induction sched arbitrary: slots)
  case Nil
  then show ?case by simp
next
  case (Cons k sched)
  show ?case
  proof (cases "k < length tasks")
    case inrange: True
    show ?thesis
    proof (cases "tasks ! k")
      case (Inl e')
      with inrange show ?thesis by auto
    next
      case (Inr v)
      with Cons.prems have "i \<in> set sched" by auto
      from Cons.IH [OF this Cons.prems(2,3), of "slots[k := Some v]"] Inr inrange
      show ?thesis by auto
    qed
  next
    case False
    with Cons.prems have "i \<in> set sched" by auto
    from Cons.IH [OF this Cons.prems(2,3), of slots] False
    show ?thesis by auto
  qed
qed

lemma gather_some_fails:
  assumes "i < length tasks" and "tasks ! i = Inl e" and "completion_order (length tasks) sched"
  shows "\<exists>j e'. j < length tasks \<and> tasks ! j = Inl e' \<and> gather tasks sched = Some (Inl e')"
proof -
  have "i \<in> set sched"
    using assms by (simp add: completion_order_def)
  from complete_tasks_some_fails [OF this assms(1,2), of "replicate (length tasks) None"]
  show ?thesis by (auto simp: gather_def)
qed

lemma tasks_succeed_or_fail:
  "(\<exists>vs. tasks = map Inr vs) \<or> (\<exists>i e. i < length tasks \<and> tasks ! i = Inl e)"
proof (induction tasks)
  case Nil
  then show ?case by simp
next
  case (Cons t tasks)
  show ?case
  proof (cases t)
    case (Inl e)
    then have "0 < length (t # tasks) \<and> (t # tasks) ! 0 = Inl e" by simp
    then show ?thesis by blast
  next
    case (Inr v)
    from Cons.IH show ?thesis
    proof
      assume "\<exists>vs. tasks = map Inr vs"
      then obtain vs where "tasks = map Inr vs" ..
      with Inr have "t # tasks = map Inr (v # vs)" by simp
      then have "\<exists>ws. t # tasks = map Inr ws" by (rule exI)
      then show ?thesis by (rule disjI1)
    next
      assume "\<exists>i e. i < length tasks \<and> tasks ! i = Inl e"
      then obtain i e where "i < length tasks" "tasks ! i = Inl e" by blast
      then have "Suc i < length (t # tasks) \<and> (t # tasks) ! Suc i = Inl e" by simp
      then show ?thesis by blast
    qed
  qed
qed

subsection \<open>File names\<close>

lemma str_contains_sublist: "str_contains s t = sublist s t"
  by (induction t) (auto simp: sublist_Cons_right)

lemma str_int_2021: "str_int 2021 = ''2021''"
  by (simp add: str_int_def str_nat.simps digit_char_def)

lemma example_file_name:
  "format_file_name format_title ''Example Movie'' 2021 ''en'' NORMAL VTT
     = ''example.movie.2021.iT.WEB.en.vtt''"
  by (simp add: format_file_name_def format_title_def str_int_2021 lower_def lower_char_def)

text \<open>
  C8. The file name is \<open><slugified-title>[.<year>].iT.WEB.<lang-code>[.<kind>].<ext>\<close>:
  the year segment is left out exactly when the decimal year occurs in the title, the
  kind segment exactly when the kind is \<open>NORMAL\<close>. With the slugified title of the
  spec, \<open>"Example Movie"\<close>, 2021, \<open>"en"\<close>, \<open>NORMAL\<close>, \<open>VTT\<close> give
  \<open>"example.movie.2021.iT.WEB.en.vtt"\<close>; kind \<open>FORCED\<close> gives a name that ends in
  \<open>".en.forced.vtt"\<close>; the title \<open>"Example Movie 2021"\<close> gets no second year segment.
\<close>

theorem format_file_name_pattern:
  "format_file_name ft title year lang kind fmt =
     ft title
     @ (if sublist (str_int year) title then [] else ''.'' @ str_int year)
     @ ''.iT.WEB.'' @ lang
     @ (if kind = NORMAL then [] else ''.'' @ lower (SubtitlesType_name kind))
     @ ''.'' @ lower (SubtitlesFormat_name fmt)
   \<and> format_file_name format_title ''Example Movie'' 2021 ''en'' NORMAL VTT
       = ''example.movie.2021.iT.WEB.en.vtt''
   \<and> format_file_name format_title ''Example Movie'' 2021 ''en'' FORCED VTT
       = ''example.movie.2021.iT.WEB.en.forced.vtt''
   \<and> format_file_name format_title ''Example Movie 2021'' 2021 ''en'' NORMAL VTT
       = ''example.movie.2021.iT.WEB.en.vtt''"
proof -
  have general: "format_file_name ft title year lang kind fmt =
     ft title
     @ (if sublist (str_int year) title then [] else ''.'' @ str_int year)
     @ ''.iT.WEB.'' @ lang
     @ (if kind = NORMAL then [] else ''.'' @ lower (SubtitlesType_name kind))
     @ ''.'' @ lower (SubtitlesFormat_name fmt)"
    by (simp add: format_file_name_def Let_def str_contains_sublist)
  have year: "str_int 2021 = ''2021''"
    by (simp add: str_int_def str_nat.simps digit_char_def)
  have e1: "format_file_name format_title ''Example Movie'' 2021 ''en'' NORMAL VTT
       = ''example.movie.2021.iT.WEB.en.vtt''"
    by (simp add: format_file_name_def format_title_def year lower_def lower_char_def)
  have e2: "format_file_name format_title ''Example Movie'' 2021 ''en'' FORCED VTT
       = ''example.movie.2021.iT.WEB.en.forced.vtt''"
    by (simp add: format_file_name_def format_title_def year lower_def lower_char_def)
  have e3: "format_file_name format_title ''Example Movie 2021'' 2021 ''en'' NORMAL VTT
       = ''example.movie.2021.iT.WEB.en.vtt''"
    by (simp add: format_file_name_def format_title_def year lower_def lower_char_def)
  from general e1 e2 e3 show ?thesis by blast
qed

theorem format_file_name_pattern_witness:
  "format_file_name format_title ''Heat 1995'' 1995 ''fr'' CC SRT = ''heat.1995.iT.WEB.fr.cc.srt''"
proof -
  have year: "str_int 1995 = ''1995''"
    by (simp add: str_int_def str_nat.simps digit_char_def)
  have inside: "sublist ''1995'' ''Heat 1995''"
    by (simp add: str_contains_sublist [symmetric])
  show ?thesis
    using format_file_name_pattern [of format_title "''Heat 1995''" 1995 "''fr''" CC SRT]
    by (simp add: year inside format_title_def lower_def lower_char_def)
qed

subsection \<open>Segment order\<close>

text \<open>
  C1. Whatever the order in which the segment downloads complete, \<open>get_subtitles\<close>
  returns, and it hands the segment texts to the merging loop in the order of the
  playlist: two schedules of the same downloads give the same document, and when
  every download succeeds the result is the loop run over the texts in playlist order.
\<close>

theorem get_subtitles_order_independent:
  assumes load: "m3u8_load env (playlist_url d) = Inr playlist"
    and s1: "completion_order (length (segments playlist)) s1"
    and s2: "completion_order (length (segments playlist)) s2"
  shows "\<exists>r1 r2. get_subtitles env s1 d = Some r1 \<and> get_subtitles env s2 d = Some r2
           \<and> (\<forall>doc. r1 = Inr doc \<longleftrightarrow> r2 = Inr doc)
           \<and> (\<forall>texts. map (download_segment env) (segments playlist) = map Inr texts \<longrightarrow>
                  r1 = append_segments env (Subtitles_new env (language_code d)) texts
                \<and> r2 = append_segments env (Subtitles_new env (language_code d)) texts)"
proof -
  define tasks where "tasks = map (download_segment env) (segments playlist)"
  have len: "length tasks = length (segments playlist)"
    by (simp add: tasks_def)
  have g1: "get_subtitles env s1 d =
        (case gather tasks s1 of None \<Rightarrow> None | Some (Inl e) \<Rightarrow> Some (Inl e)
         | Some (Inr downloaded) \<Rightarrow> Some (append_segments env (Subtitles_new env (language_code d)) downloaded))"
    by (simp add: get_subtitles_def load tasks_def)
  have g2: "get_subtitles env s2 d =
        (case gather tasks s2 of None \<Rightarrow> None | Some (Inl e) \<Rightarrow> Some (Inl e)
         | Some (Inr downloaded) \<Rightarrow> Some (append_segments env (Subtitles_new env (language_code d)) downloaded))"
    by (simp add: get_subtitles_def load tasks_def)
  from tasks_succeed_or_fail [of tasks] show ?thesis
  proof
    assume "\<exists>vs. tasks = map Inr vs"
    then obtain vs where vs: "tasks = map Inr vs" ..
    have "gather tasks s1 = Some (Inr vs)" "gather tasks s2 = Some (Inr vs)"
      using gather_all_succeed [OF vs] s1 s2 len by simp_all
    then have "get_subtitles env s1 d = Some (append_segments env (Subtitles_new env (language_code d)) vs)"
      "get_subtitles env s2 d = Some (append_segments env (Subtitles_new env (language_code d)) vs)"
      using g1 g2 by simp_all
    moreover have "\<forall>texts. map (download_segment env) (segments playlist) = map Inr texts \<longrightarrow> texts = vs"
      using vs by (auto simp: tasks_def inj_map_eq_map)
    ultimately show ?thesis by auto
  next
    assume "\<exists>i e. i < length tasks \<and> tasks ! i = Inl e"
    then obtain i e where i: "i < length tasks" "tasks ! i = Inl e" by blast
    obtain e1 where "gather tasks s1 = Some (Inl e1)"
      using gather_some_fails [OF i, of s1] s1 len by auto
    moreover obtain e2 where "gather tasks s2 = Some (Inl e2)"
      using gather_some_fails [OF i, of s2] s2 len by auto
    ultimately have r: "get_subtitles env s1 d = Some (Inl e1)" "get_subtitles env s2 d = Some (Inl e2)"
      using g1 g2 by simp_all
    have "\<forall>texts. map (download_segment env) (segments playlist) \<noteq> map Inr texts"
    proof (intro allI notI)
      fix texts assume "map (download_segment env) (segments playlist) = map Inr texts"
      then have "tasks ! i = Inr (texts ! i)"
        using i by (metis length_map nth_map tasks_def)
      with i show False by simp
    qed
    with r show ?thesis by auto
  qed
qed

theorem get_subtitles_order_independent_witness:
  "get_subtitles demo_env [2, 0, 1] demo_subtitles_data
     = Some (Inr [''cue-seg0'', ''cue-404'', ''cue-seg2''])
   \<and> get_subtitles demo_env [0, 1, 2] demo_subtitles_data
     = Some (Inr [''cue-seg0'', ''cue-404'', ''cue-seg2''])"
proof -
  have load: "m3u8_load demo_env (playlist_url demo_subtitles_data) = Inr demo_playlist"
    by (simp add: demo_env_def)
  have s1: "completion_order (length (segments demo_playlist)) [2, 0, 1]"
    by (auto simp: completion_order_def demo_playlist_def)
  have s2: "completion_order (length (segments demo_playlist)) [0, 1, 2]"
    by (auto simp: completion_order_def demo_playlist_def)
  have tasks: "map (download_segment demo_env) (segments demo_playlist)
               = map Inr [''cue-seg0'', ''cue-404'', ''cue-seg2'']"
    by (simp add: download_segment_def demo_env_def demo_playlist_def exc_bind_def)
  have merged: "append_segments demo_env (Subtitles_new demo_env (language_code demo_subtitles_data))
                  [''cue-seg0'', ''cue-404'', ''cue-seg2'']
                = Inr [''cue-seg0'', ''cue-404'', ''cue-seg2'']"
    by (simp add: demo_env_def exc_bind_def)
  from get_subtitles_order_independent [OF load s1 s2]
  obtain r1 r2 where r: "get_subtitles demo_env [2, 0, 1] demo_subtitles_data = Some r1"
      "get_subtitles demo_env [0, 1, 2] demo_subtitles_data = Some r2"
    and handed: "\<forall>texts. map (download_segment demo_env) (segments demo_playlist) = map Inr texts \<longrightarrow>
        r1 = append_segments demo_env (Subtitles_new demo_env (language_code demo_subtitles_data)) texts
      \<and> r2 = append_segments demo_env (Subtitles_new demo_env (language_code demo_subtitles_data)) texts"
    by blast
  from handed tasks have "r1 = append_segments demo_env
        (Subtitles_new demo_env (language_code demo_subtitles_data)) [''cue-seg0'', ''cue-404'', ''cue-seg2'']
      \<and> r2 = append_segments demo_env
        (Subtitles_new demo_env (language_code demo_subtitles_data)) [''cue-seg0'', ''cue-404'', ''cue-seg2'']"
    by blast
  then have "r1 = Inr [''cue-seg0'', ''cue-404'', ''cue-seg2'']"
    "r2 = Inr [''cue-seg0'', ''cue-404'', ''cue-seg2'']"
    by (simp_all only: merged)
  with r show ?thesis by (simp only:)
qed

subsection \<open>A failing batch\<close>

lemma download_segment_raises:
  "download_segment env url = Inl e \<longleftrightarrow>
     session_get env url = Inl e
     \<or> (\<exists>data. session_get env url = Inr data
           \<and> (read data = Inl e \<or> (\<exists>content. read data = Inr content \<and> decode_utf8 env content = Inl e)))"
  by (auto simp: download_segment_def exc_bind_def split: sum.splits)

text \<open>
  C2 as the spec states it counts a response with a non-success status as a failed
  fetch. The downloader never reads the status: here the second of three segments is
  answered with 404 and a body, and the download succeeds and writes the document,
  that body included.
\<close>

theorem download_subtitles_status_counterexample:
  "session_get demo_env (segments demo_playlist ! 1) = Inr \<lparr>status = 404, read = Inr ''cue-404''\<rparr>
   \<and> download_subtitles demo_env format_title [2, 0, 1] Map.empty demo_movie_data
        demo_subtitles_data ''out'' VTT
       = Some (Inr ''out/example.movie.2021.iT.WEB.en.vtt'',
               [''out/example.movie.2021.iT.WEB.en.vtt'' \<mapsto> ''cue-seg0cue-404cue-seg2''])"
proof -
  have tasks: "map (download_segment demo_env) (segments demo_playlist)
               = map Inr [''cue-seg0'', ''cue-404'', ''cue-seg2'']"
    by (simp add: download_segment_def demo_env_def demo_playlist_def exc_bind_def)
  have "completion_order (length (map (download_segment demo_env) (segments demo_playlist))) [2, 0, 1]"
    by (auto simp: completion_order_def demo_playlist_def)
  from gather_all_succeed [OF tasks this]
  have "get_subtitles demo_env [2, 0, 1] demo_subtitles_data
          = Some (Inr [''cue-seg0'', ''cue-404'', ''cue-seg2''])"
    by (simp add: get_subtitles_def) (simp add: demo_env_def exc_bind_def)
  moreover have "format_file_name format_title ''Example Movie'' 2021 ''en'' NORMAL VTT
       = ''example.movie.2021.iT.WEB.en.vtt''"
    by (rule example_file_name)
  ultimately show ?thesis
    by (simp add: download_subtitles_def demo_movie_data_def demo_subtitles_data_def path_join_def Let_def)
       (simp add: demo_env_def demo_playlist_def)
qed

text \<open>
  C2, amended. A fetch raises exactly when the GET raises, reading the body raises or
  the UTF-8 decoding raises; the status plays no part. If some fetch of the batch
  raises, \<open>download_subtitles\<close> raises the exception of one of the failed fetches, and
  the output file, opened for writing before the batch started, is left empty: no
  serialized text is written to it. If the file cannot be opened, that exception is
  raised and no file is touched.
\<close>

theorem download_subtitles_fetch_raises:
  assumes load: "m3u8_load env (playlist_url d) = Inr playlist"
    and sched: "completion_order (length (segments playlist)) sched"
    and i: "i < length (segments playlist)"
    and fail: "download_segment env (segments playlist ! i) = Inl e"
    and path: "path = path_join output_dir
                 (format_file_name ft (name m) (release_year m) (language_code d) (subtitles_type d) fmt)"
  shows "(\<forall>oe. open_error env path = Some oe \<longrightarrow>
            download_subtitles env ft sched files m d output_dir fmt = Some (Inl oe, files))
       \<and> (open_error env path = None \<longrightarrow>
            (\<exists>j e'. j < length (segments playlist)
                \<and> download_segment env (segments playlist ! j) = Inl e'
                \<and> download_subtitles env ft sched files m d output_dir fmt
                    = Some (Inl e', files(path \<mapsto> []))))
       \<and> (\<forall>url x. download_segment env url = Inl x \<longleftrightarrow>
             session_get env url = Inl x
             \<or> (\<exists>data. session_get env url = Inr data
                  \<and> (read data = Inl x
                     \<or> (\<exists>content. read data = Inr content \<and> decode_utf8 env content = Inl x))))"
proof -
  define tasks where "tasks = map (download_segment env) (segments playlist)"
  have "i < length tasks" "tasks ! i = Inl e"
    using i fail by (simp_all add: tasks_def)
  from gather_some_fails [OF this, of sched] sched
  obtain j e' where j: "j < length tasks" "tasks ! j = Inl e'" "gather tasks sched = Some (Inl e')"
    by (auto simp: tasks_def)
  then have get: "get_subtitles env sched d = Some (Inl e')"
    by (simp add: get_subtitles_def load tasks_def)
  have opened: "open_error env path = None \<Longrightarrow>
      download_subtitles env ft sched files m d output_dir fmt = Some (Inl e', files(path \<mapsto> []))"
    by (simp add: download_subtitles_def Let_def path get)
  have refused: "\<And>oe. open_error env path = Some oe \<Longrightarrow>
      download_subtitles env ft sched files m d output_dir fmt = Some (Inl oe, files)"
    by (simp add: download_subtitles_def Let_def path)
  have "j < length (segments playlist)" "download_segment env (segments playlist ! j) = Inl e'"
    using j by (simp_all add: tasks_def)
  with opened refused download_segment_raises show ?thesis
    by blast
qed

theorem download_subtitles_fetch_raises_witness:
  "download_subtitles failing_env format_title [2, 0, 1] Map.empty demo_movie_data
     demo_subtitles_data ''out'' VTT
   = Some (Inl ClientError, [''out/example.movie.2021.iT.WEB.en.vtt'' \<mapsto> []])"
proof -
  have load: "m3u8_load failing_env (playlist_url demo_subtitles_data) = Inr demo_playlist"
    by (simp add: failing_env_def demo_env_def)
  have sched: "completion_order (length (segments demo_playlist)) [2, 0, 1]"
    by (auto simp: completion_order_def demo_playlist_def)
  have i: "2 < length (segments demo_playlist)"
    by (simp add: demo_playlist_def)
  have fail: "download_segment failing_env (segments demo_playlist ! 2) = Inl ClientError"
    by (simp add: download_segment_def failing_env_def demo_env_def demo_playlist_def exc_bind_def)
  have fname: "format_file_name format_title ''Example Movie'' 2021 ''en'' NORMAL VTT
       = ''example.movie.2021.iT.WEB.en.vtt''"
    by (rule example_file_name)
  have path: "''out/example.movie.2021.iT.WEB.en.vtt'' = path_join ''out''
      (format_file_name format_title (name demo_movie_data) (release_year demo_movie_data)
         (language_code demo_subtitles_data) (subtitles_type demo_subtitles_data) VTT)"
    by (simp add: demo_movie_data_def demo_subtitles_data_def fname path_join_def)
  have opens: "open_error failing_env ''out/example.movie.2021.iT.WEB.en.vtt'' = None"
    by (simp add: failing_env_def demo_env_def)
  have only: "\<And>url e. download_segment failing_env url = Inl e \<Longrightarrow> e = ClientError"
    by (auto simp: download_segment_def failing_env_def demo_env_def exc_bind_def split: if_splits)
  from download_subtitles_fetch_raises [OF load sched i fail path, of Map.empty] opens only
  show ?thesis by auto
qed

subsection \<open>Release year\<close>

lemma strptime_example: "strptime_year (JStr ''2021-07-09'') = Inr 2021"
  by (simp add: strptime_year_def parse_year_def parse_month_def parse_day_def is_digit_def
      digit_val_def two_digit_month_def two_digit_day_def one_digit_def days_in_month_def)

lemma epoch_example: "epoch_plus_seconds_year (- 86400) = Inr 1969"
  by (simp add: epoch_plus_seconds_year_def year_of_ordinal_def max_ordinal_def Let_def)

lemma fromtimestamp_example: "fromtimestamp_year (\<lambda>t. 0) 1625788800 = Inr 2021"
  by (simp add: fromtimestamp_year_def year_of_ordinal_def Let_def)

lemma demo_env_utcoffset: "utcoffset demo_scraper_env = (\<lambda>t. 0)"
  by (simp add: demo_scraper_env_def)

lemma fromtimestamp_out_of_range:
  "fromtimestamp_year (\<lambda>t. 0) (10 ^ 15) = Inl ValueError"
  "fromtimestamp_year (\<lambda>t. 0) (10 ^ 17) = Inl OSError"
  "fromtimestamp_year (\<lambda>t. 0) (2 ^ 63) = Inl OverflowError"
  by (simp_all add: fromtimestamp_year_def year_of_ordinal_def Let_def)

lemma new_year_utc: "fromtimestamp_year (\<lambda>t. 0) 1609459200 = Inr 2021"
  by (simp add: fromtimestamp_year_def year_of_ordinal_def Let_def)

lemma new_year_pacific: "fromtimestamp_year (\<lambda>t. - 28800) 1609459200 = Inr 2020"
  by (simp add: fromtimestamp_year_def year_of_ordinal_def Let_def)

lemma new_year_sibling: "epoch_plus_seconds_year 1609459200 = Inr 2021"
  by (simp add: epoch_plus_seconds_year_def year_of_ordinal_def max_ordinal_def Let_def)

lemma pacific_env_utcoffset: "utcoffset pacific_env = (\<lambda>t. - 28800)"
  by (simp add: pacific_env_def)

text \<open>
  C7 holds for the two values it names, for date strings and for epochs that are not
  positive, and fails for positive epochs. The AppleTV scraper converts a positive
  epoch with \<open>datetime.fromtimestamp\<close>, in the local time zone of the machine, while its
  other branch adds the seconds to 1970-01-01, in UTC. For the release date
  2021-01-01T00:00:00Z (1609459200000 milliseconds) a machine eight hours west of UTC
  gets the year 2020, where a machine on UTC gets 2021 and the arithmetic of the other
  branch gives 2021 for the same instant. The date string \<open>"2021-07-09"\<close> gives 2021 and
  the epoch \<open>-86400000\<close> gives 1969 on every machine.
\<close>

theorem appletv_release_year_local_zone:
  "appletv_release_year pacific_env (JInt 1609459200000) = Inr 2020
   \<and> appletv_release_year demo_scraper_env (JInt 1609459200000) = Inr 2021
   \<and> epoch_plus_seconds_year 1609459200 = Inr 2021
   \<and> find_playlist_data_appletv_json pacific_env (appletv_page (JInt 1609459200000) [])
       = (Inr \<lparr>data_source = APPLETV, name = JStr ''Example Movie'', release_year = 2020,
               playlists = []\<rparr>, [])
   \<and> strptime_year (JStr ''2021-07-09'') = Inr 2021
   \<and> appletv_release_year pacific_env (JInt (- 86400000)) = Inr 1969"
proof -
  have west: "appletv_release_year pacific_env (JInt 1609459200000) = Inr 2020"
    by (simp add: appletv_release_year_def exc_bind_def pacific_env_utcoffset new_year_pacific)
  have utc: "appletv_release_year demo_scraper_env (JInt 1609459200000) = Inr 2021"
    by (simp add: appletv_release_year_def exc_bind_def demo_env_utcoffset new_year_utc)
  have page: "find_playlist_data_appletv_json pacific_env (appletv_page (JInt 1609459200000) [])
       = (Inr \<lparr>data_source = APPLETV, name = JStr ''Example Movie'', release_year = 2020,
               playlists = []\<rparr>, [])"
    by (simp add: find_playlist_data_appletv_json_def appletv_json_fields_def appletv_page_def
        item_def exc_bind_def west)
  have before: "appletv_release_year pacific_env (JInt (- 86400000)) = Inr 1969"
    by (simp add: appletv_release_year_def exc_bind_def epoch_example)
  from west utc new_year_sibling page strptime_example before show ?thesis
    by (intro conjI)
qed

subsection \<open>Language filter\<close>

text \<open>
  C5 holds for language codes only. \<open>find_subtitles\<close> puts the filter entries and the
  language code in lower case, but compares the display name as it is: the filter
  \<open>["English"]\<close> does not select the track with code \<open>en\<close> and name \<open>English\<close>, while
  the filter \<open>["EN"]\<close> does.
\<close>

theorem find_subtitles_name_filter:
  "find_subtitles \<lparr>segments = [], media = [english_track]\<rparr> (Some [''English'']) = ([], None)
   \<and> find_subtitles \<lparr>segments = [], media = [english_track]\<rparr> (Some [''EN''])
       = ([\<lparr>language_code = Some ''en'', language_name = Some ''English'',
             subtitles_type = NORMAL, playlist_url = Some ''https://hls.example/en.m3u8''\<rparr>], None)"
  by (simp add: find_subtitles_def english_track_def lower_def lower_char_def)

subsection \<open>One asset for each identifier\<close>

text \<open>
  C4 fails for the AppleTV scraper. It tests each identifier against \<open>itunes_ids_set\<close>
  and never adds to that set: two playables with the identifier 1500, each with a
  playlist that loads, give two entries for 1500. Within a playable the scan stops at
  the first playlist that loads (the second address of the first playable is not
  loaded for it).
\<close>

theorem appletv_duplicate_id:
  "find_playlist_data_appletv_json demo_scraper_env
     (appletv_page (JInt (- 86400000))
        [(''p1'', playable ''1500'' [''https://hls.example/a.m3u8'', ''https://hls.example/b.m3u8'']),
         (''p2'', playable ''1500'' [''https://hls.example/b.m3u8''])])
   = (Inr \<lparr>data_source = APPLETV, name = JStr ''Example Movie'', release_year = 1969,
           playlists = [PlaylistData (JStr ''1500'') (JStr ''https://hls.example/a.m3u8''),
                        PlaylistData (JStr ''1500'') (JStr ''https://hls.example/b.m3u8'')]\<rparr>,
      [JStr ''https://hls.example/a.m3u8'', JStr ''https://hls.example/b.m3u8''])"
  by (simp add: find_playlist_data_appletv_json_def appletv_json_fields_def appletv_page_def
      playable_def asset_def item_def exc_bind_def appletv_release_year_def epoch_example
      try_load_def demo_scraper_env_def demo_load_def)

subsection \<open>Choice of the scraper\<close>

lemma strip_shoebox: "strip '' {shoebox} '' = ''{shoebox}''"
  by (simp add: strip_def is_space_def)

lemma demo_env_load: "m3u8_load_nth demo_scraper_env = demo_load"
  by (simp add: demo_scraper_env_def)

lemma demo_html_page:
  "find_playlist_data_itunes_html demo_scraper_env demo_html
   = (Inr \<lparr>data_source = ITUNES, name = JStr ''Example Movie'', release_year = 2021,
           playlists = [PlaylistData (JStr ''1500'') (JStr ''https://hls.example/a.m3u8'')]\<rparr>,
      [JStr ''https://hls.example/a.m3u8''])"
proof -
  have loads: "json_loads demo_scraper_env ''{shoebox}''
      = Inr (shoebox_page [html_offer [asset ''https://hls.example/a.m3u8'']])"
    by (simp add: demo_scraper_env_def)
  have box: "itunes_html_shoebox demo_scraper_env ''1500''
        (shoebox_page [html_offer [asset ''https://hls.example/a.m3u8'']])
      = (Inr \<lparr>data_source = ITUNES, name = JStr ''Example Movie'', release_year = 2021,
           playlists = [PlaylistData (JStr ''1500'') (JStr ''https://hls.example/a.m3u8'')]\<rparr>,
         [JStr ''https://hls.example/a.m3u8''])"
    by (simp add: itunes_html_shoebox_def itunes_html_fields_def shoebox_page_def html_offer_def
        asset_def item_def exc_bind_def strptime_example try_load_def demo_env_load
        demo_load_def seq_index_def empty_playlist_def asset_has_url_def first_asset_url_def)
  show ?thesis
    by (simp add: find_playlist_data_itunes_html_def find_tag_def demo_html_def strip_shoebox
        loads box)
qed

lemma try_load_other_parser:
  "try_load (env \<lparr> BeautifulSoup := parser \<rparr>) loaded url = try_load env loaded url"
  by (simp add: try_load_def)

lemma itunes_json_assets_other_parser:
  "itunes_json_assets (env \<lparr> BeautifulSoup := parser \<rparr>) assets loaded
     = itunes_json_assets env assets loaded"
  by (induction assets arbitrary: loaded)
     (simp_all add: try_load_other_parser cong: sum.case_cong load_outcome.case_cong)

lemma itunes_json_offers_other_parser:
  "itunes_json_offers (env \<lparr> BeautifulSoup := parser \<rparr>) offers loaded
     = itunes_json_offers env offers loaded"
  by (induction offers arbitrary: loaded)
     (simp_all add: itunes_json_assets_other_parser
        cong: sum.case_cong json.case_cong prod.case_cong option.case_cong if_cong)

lemma find_playlist_data_itunes_json_other_parser:
  "find_playlist_data_itunes_json (env \<lparr> BeautifulSoup := parser \<rparr>) json_data
     = find_playlist_data_itunes_json env json_data"
  by (simp add: find_playlist_data_itunes_json_def itunes_json_offers_other_parser
        cong: sum.case_cong prod.case_cong)

lemma demo_parse_page: "BeautifulSoup demo_scraper_env ''<html>1500</html>'' = demo_html"
  by (simp add: demo_scraper_env_def)

lemma demo_parse_other: "BeautifulSoup demo_scraper_env ''{}'' = []"
  by (simp add: demo_scraper_env_def)

lemma demo_json_response:
  "itunes_url_regex demo_scraper_env ''https://itunes.apple.com/us/movie/example/id1500''
     = Some ''https://itunes.apple.com/us/movie/example/id1500''"
  "requests_get demo_scraper_env ''https://itunes.apple.com/us/movie/example/id1500'' []
     = Inr \<lparr>status_code = 200, content_type = Some ''application/json; charset=utf-8'',
            content = ''{}''\<rparr>"
  "json_loads demo_scraper_env ''{}'' = Inr (JDict [])"
  by (simp_all add: demo_scraper_env_def)

lemma demo_html_response:
  "itunes_url_regex demo_scraper_env ''https://itunes.apple.com/us/movie/example/id1501''
     = Some ''https://itunes.apple.com/us/movie/example/id1501''"
  "requests_get demo_scraper_env ''https://itunes.apple.com/us/movie/example/id1501'' []
     = Inr \<lparr>status_code = 200, content_type = Some ''text/html; charset=utf-8'',
            content = ''<html>1500</html>''\<rparr>"
  by (simp_all add: demo_scraper_env_def)

lemma empty_object_fields: "itunes_json_fields (JDict []) = Inl (KeyError (JStr ''pageData''))"
  by (simp add: itunes_json_fields_def item_def exc_bind_def)

text \<open>
  C3 as the spec states it has the extraction go on to the HTML scraper when the JSON
  response lacks a required field. Here the response is declared as JSON and decodes to
  an object without fields: \<open>get_movie_data\<close> raises the \<open>KeyError\<close> of the first lookup
  at once, with no playlist loaded. It is not the exception that the HTML scraper
  raises on the same content.
\<close>

theorem get_movie_data_no_fallback_counterexample:
  "requests_get demo_scraper_env ''https://itunes.apple.com/us/movie/example/id1500'' []
     = Inr \<lparr>status_code = 200, content_type = Some ''application/json; charset=utf-8'',
            content = ''{}''\<rparr>
   \<and> json_loads demo_scraper_env ''{}'' = Inr (JDict [])
   \<and> get_movie_data demo_scraper_env JNull ''https://itunes.apple.com/us/movie/example/id1500''
     = ((Inl (KeyError (JStr ''pageData'')), []), JNull)
   \<and> find_playlist_data_itunes_html demo_scraper_env (BeautifulSoup demo_scraper_env ''{}'')
     = (Inl (PageLoadError ''HTML page did not load properly.''), [])"
proof -
  have "get_movie_data demo_scraper_env JNull ''https://itunes.apple.com/us/movie/example/id1500''
     = ((Inl (KeyError (JStr ''pageData'')), []), JNull)"
    by (simp add: get_movie_data_def get_movie_data_itunes_def raise_for_status_def
        demo_json_response find_playlist_data_itunes_json_def empty_object_fields)
  moreover have "find_playlist_data_itunes_html demo_scraper_env (BeautifulSoup demo_scraper_env ''{}'')
     = (Inl (PageLoadError ''HTML page did not load properly.''), [])"
    by (simp add: demo_parse_other find_playlist_data_itunes_html_def find_tag_def)
  ultimately show ?thesis
    by (simp add: demo_json_response)
qed

text \<open>
  C3, amended. For an iTunes address whose response arrives with a good status, the
  declared content type alone selects the one scraper that reads it, and what that
  scraper returns or raises is the outcome of \<open>get_movie_data\<close>. A response declared as
  JSON that decodes is read by the JSON scraper: a failing field read raises at once,
  with no playlist loaded, and the outcome is the same whatever the HTML parser would
  make of the content. The HTML scraper reads a response exactly when it is not
  declared as JSON, is declared as \<open>text/html\<close> and its status is not 404; every other
  response raises \<open>PageLoadError\<close>.
\<close>

theorem get_movie_data_content_type:
  assumes "itunes_url_regex env url = Some itunes_url"
    and "requests_get env itunes_url [] = Inr request"
    and "raise_for_status request = Inr ()"
    and "content_type request = Some declared"
  shows "(str_contains ''application/json'' declared \<longrightarrow>
            (\<forall>json_data. json_loads env (content request) = Inr json_data \<longrightarrow>
               get_movie_data env atv_storefronts url
                 = (find_playlist_data_itunes_json env json_data, atv_storefronts)
               \<and> (\<forall>e. itunes_json_fields json_data = Inl e \<longrightarrow>
                     get_movie_data env atv_storefronts url = ((Inl e, []), atv_storefronts)))
            \<and> (\<forall>parser. get_movie_data (env \<lparr> BeautifulSoup := parser \<rparr>) atv_storefronts url
                          = get_movie_data env atv_storefronts url))
       \<and> (\<not> str_contains ''application/json'' declared
            \<and> str_contains ''text/html'' declared \<and> status_code request \<noteq> 404 \<longrightarrow>
            get_movie_data env atv_storefronts url
              = (find_playlist_data_itunes_html env (BeautifulSoup env (content request)),
                 atv_storefronts))
       \<and> (\<not> str_contains ''application/json'' declared
            \<and> \<not> (str_contains ''text/html'' declared \<and> status_code request \<noteq> 404) \<longrightarrow>
            get_movie_data env atv_storefronts url
              = ((Inl (PageLoadError
                    ''Recieved an invalid response. Pleas assure the URL is valid.''), []),
                 atv_storefronts))"
proof (intro conjI impI allI)
  fix json_data
  assume "str_contains ''application/json'' declared"
    and "json_loads env (content request) = Inr json_data"
  with assms show decoded: "get_movie_data env atv_storefronts url
      = (find_playlist_data_itunes_json env json_data, atv_storefronts)"
    by (simp add: get_movie_data_def get_movie_data_itunes_def)
  fix e
  assume "itunes_json_fields json_data = Inl e"
  with decoded show "get_movie_data env atv_storefronts url = ((Inl e, []), atv_storefronts)"
    by (simp add: find_playlist_data_itunes_json_def)
next
  fix parser
  assume json: "str_contains ''application/json'' declared"
  show "get_movie_data (env \<lparr> BeautifulSoup := parser \<rparr>) atv_storefronts url
          = get_movie_data env atv_storefronts url"
    using assms json
    by (simp add: get_movie_data_def get_movie_data_itunes_def
          find_playlist_data_itunes_json_other_parser cong: sum.case_cong)
next
  assume "\<not> str_contains ''application/json'' declared
            \<and> str_contains ''text/html'' declared \<and> status_code request \<noteq> 404"
  with assms show "get_movie_data env atv_storefronts url
      = (find_playlist_data_itunes_html env (BeautifulSoup env (content request)), atv_storefronts)"
    by (simp add: get_movie_data_def get_movie_data_itunes_def)
next
  assume "\<not> str_contains ''application/json'' declared
            \<and> \<not> (str_contains ''text/html'' declared \<and> status_code request \<noteq> 404)"
  with assms show "get_movie_data env atv_storefronts url
      = ((Inl (PageLoadError
            ''Recieved an invalid response. Pleas assure the URL is valid.''), []),
         atv_storefronts)"
    by (auto simp add: get_movie_data_def get_movie_data_itunes_def)
qed

theorem get_movie_data_content_type_witness:
  "get_movie_data demo_scraper_env JNull ''https://itunes.apple.com/us/movie/example/id1500''
     = ((Inl (KeyError (JStr ''pageData'')), []), JNull)
   \<and> get_movie_data (demo_scraper_env \<lparr> BeautifulSoup := (\<lambda>text. demo_html) \<rparr>) JNull
        ''https://itunes.apple.com/us/movie/example/id1500''
     = ((Inl (KeyError (JStr ''pageData'')), []), JNull)
   \<and> get_movie_data demo_scraper_env JNull ''https://itunes.apple.com/us/movie/example/id1501''
     = ((Inr \<lparr>data_source = ITUNES, name = JStr ''Example Movie'', release_year = 2021,
               playlists = [PlaylistData (JStr ''1500'') (JStr ''https://hls.example/a.m3u8'')]\<rparr>,
         [JStr ''https://hls.example/a.m3u8'']), JNull)"
proof -
  let ?json = "\<lparr>status_code = 200, content_type = Some ''application/json; charset=utf-8'',
                content = ''{}''\<rparr>"
  let ?html = "\<lparr>status_code = 200, content_type = Some ''text/html; charset=utf-8'',
                content = ''<html>1500</html>''\<rparr>"
  have ok: "raise_for_status ?json = Inr ()" "raise_for_status ?html = Inr ()"
    by (simp_all add: raise_for_status_def)
  have types: "content_type ?json = Some ''application/json; charset=utf-8''"
    "content_type ?html = Some ''text/html; charset=utf-8''"
    by simp_all
  have declared: "str_contains ''application/json'' ''application/json; charset=utf-8''"
    "\<not> str_contains ''application/json'' ''text/html; charset=utf-8''"
    "str_contains ''text/html'' ''text/html; charset=utf-8''"
    "status_code ?html \<noteq> 404"
    by simp_all
  have decoded: "json_loads demo_scraper_env (content ?json) = Inr (JDict [])"
    by (simp add: demo_json_response)
  note json_branch = get_movie_data_content_type
      [OF demo_json_response(1) demo_json_response(2) ok(1) types(1), of JNull]
  note html_branch = get_movie_data_content_type
      [OF demo_html_response(1) demo_html_response(2) ok(2) types(2), of JNull]
  from json_branch declared(1) decoded empty_object_fields
  have a: "get_movie_data demo_scraper_env JNull ''https://itunes.apple.com/us/movie/example/id1500''
     = ((Inl (KeyError (JStr ''pageData'')), []), JNull)"
    by blast
  from json_branch declared(1)
  have "get_movie_data (demo_scraper_env \<lparr> BeautifulSoup := (\<lambda>text. demo_html) \<rparr>) JNull
        ''https://itunes.apple.com/us/movie/example/id1500''
     = get_movie_data demo_scraper_env JNull ''https://itunes.apple.com/us/movie/example/id1500''"
    by blast
  with a have b: "get_movie_data (demo_scraper_env \<lparr> BeautifulSoup := (\<lambda>text. demo_html) \<rparr>) JNull
        ''https://itunes.apple.com/us/movie/example/id1500''
     = ((Inl (KeyError (JStr ''pageData'')), []), JNull)"
    by simp
  from html_branch declared(2,3,4)
  have "get_movie_data demo_scraper_env JNull ''https://itunes.apple.com/us/movie/example/id1501''
     = (find_playlist_data_itunes_html demo_scraper_env
          (BeautifulSoup demo_scraper_env (content ?html)), JNull)"
    by blast
  then have c: "get_movie_data demo_scraper_env JNull ''https://itunes.apple.com/us/movie/example/id1501''
     = ((Inr \<lparr>data_source = ITUNES, name = JStr ''Example Movie'', release_year = 2021,
               playlists = [PlaylistData (JStr ''1500'') (JStr ''https://hls.example/a.m3u8'')]\<rparr>,
         [JStr ''https://hls.example/a.m3u8'']), JNull)"
    by (simp add: demo_parse_page demo_html_page)
  from a b c show ?thesis by (intro conjI)
qed

subsection \<open>Exceptions of the guarded load\<close>

lemma seq_index_error: "seq_index xs i = Inl e \<Longrightarrow> e = IndexError"
  by (simp add: seq_index_def Let_def split: if_splits)

lemma subscript_not_caught: "subscript obj key = Inl e \<Longrightarrow> \<not> caught e"
  by (cases obj)
     (auto simp: caught_def exc_bind_def split: if_splits json.splits option.splits sum.splits
           dest: seq_index_error)

lemma item_not_caught: "item obj k = Inl e \<Longrightarrow> \<not> caught e"
  unfolding item_def by (rule subscript_not_caught)

lemma item_path_not_caught: "item_path obj ks = Inl e \<Longrightarrow> \<not> caught e"
proof (induction ks arbitrary: obj)
  case Nil
  then show ?case by simp
next
  case (Cons k ks)
  then show ?case
    by (auto simp: exc_bind_def split: sum.splits dest: item_not_caught)
qed

lemma dict_get_not_caught: "dict_get obj k = Inl e \<Longrightarrow> \<not> caught e"
  by (cases obj) (auto simp: caught_def)

lemma dict_values_not_caught: "dict_values obj = Inl e \<Longrightarrow> \<not> caught e"
  by (cases obj) (auto simp: caught_def)

lemma py_iter_not_caught: "py_iter obj = Inl e \<Longrightarrow> \<not> caught e"
  by (cases obj) (auto simp: caught_def)

lemma try_load_Raised: "try_load env loaded url = Raised e \<longleftrightarrow>
    m3u8_load_nth env (length loaded) url = Inl e \<and> \<not> caught e"
  by (auto simp: try_load_def split: sum.splits if_splits)

lemma try_load_Skipped: "try_load env loaded url = Skipped \<longleftrightarrow>
    (\<exists>e. m3u8_load_nth env (length loaded) url = Inl e \<and> caught e)"
  by (auto simp: try_load_def split: sum.splits if_splits)

lemma try_load_Loaded: "try_load env loaded url = Loaded \<longleftrightarrow>
    (\<exists>playlist. m3u8_load_nth env (length loaded) url = Inr playlist)"
  by (auto simp: try_load_def split: sum.splits if_splits)

lemma itunes_json_assets_not_caught:
  "fst (itunes_json_assets env assets loaded) = Inl e \<Longrightarrow> \<not> caught e"
proof (induction assets arbitrary: loaded)
  case Nil
  then show ?case by simp
next
  case (Cons a assets)
  then show ?case
    by (auto simp: try_load_Raised split: sum.splits load_outcome.splits dest: item_not_caught)
qed

lemma appletv_offers_not_caught:
  "fst (appletv_offers env offers loaded) = Inl e \<Longrightarrow> \<not> caught e"
proof (induction offers arbitrary: loaded)
  case Nil
  then show ?case by simp
next
  case (Cons a offers)
  then show ?case
    by (auto simp: try_load_Raised split: sum.splits load_outcome.splits dest: item_not_caught)
qed

lemma itunes_json_assets_loaded:
  "\<exists>urls. snd (itunes_json_assets env assets loaded) = loaded @ urls
         \<and> map Inr urls = map (\<lambda>a. item a ''hlsUrl'') (take (length urls) assets)"
proof (induction assets arbitrary: loaded)
  case Nil
  then show ?case by simp
next
  case (Cons a assets)
  show ?case
  proof (cases "item a ''hlsUrl''")
    case (Inl e)
    then have "snd (itunes_json_assets env (a # assets) loaded) = loaded @ []" by simp
    then show ?thesis by (intro exI [of _ "[]"]) simp
  next
    case (Inr url)
    show ?thesis
    proof (cases "try_load env loaded url")
      case Skipped
      from Cons.IH [of "loaded @ [url]"] obtain urls where
        urls: "snd (itunes_json_assets env assets (loaded @ [url])) = (loaded @ [url]) @ urls"
          "map Inr urls = map (\<lambda>a. item a ''hlsUrl'') (take (length urls) assets)"
        by blast
      with Inr Skipped show ?thesis
        by (intro exI [of _ "url # urls"]) simp
    next
      case Loaded
      with Inr show ?thesis by (intro exI [of _ "[url]"]) simp
    next
      case (Raised e)
      with Inr show ?thesis by (intro exI [of _ "[url]"]) simp
    qed
  qed
qed

lemma appletv_offers_loaded:
  "\<exists>urls. snd (appletv_offers env offers loaded) = loaded @ urls
         \<and> map Inr urls = map (\<lambda>a. item a ''hlsUrl'') (take (length urls) offers)"
proof (induction offers arbitrary: loaded)
  case Nil
  then show ?case by simp
next
  case (Cons a offers)
  show ?case
  proof (cases "item a ''hlsUrl''")
    case (Inl e)
    then have "snd (appletv_offers env (a # offers) loaded) = loaded @ []" by simp
    then show ?thesis by (intro exI [of _ "[]"]) simp
  next
    case (Inr url)
    show ?thesis
    proof (cases "try_load env loaded url")
      case Skipped
      from Cons.IH [of "loaded @ [url]"] obtain urls where
        urls: "snd (appletv_offers env offers (loaded @ [url])) = (loaded @ [url]) @ urls"
          "map Inr urls = map (\<lambda>a. item a ''hlsUrl'') (take (length urls) offers)"
        by blast
      with Inr Skipped show ?thesis
        by (intro exI [of _ "url # urls"]) simp
    next
      case Loaded
      with Inr show ?thesis by (intro exI [of _ "[url]"]) simp
    next
      case (Raised e)
      with Inr show ?thesis by (intro exI [of _ "[url]"]) simp
    qed
  qed
qed

lemma itunes_json_offers_not_caught:
  "fst (itunes_json_offers env offers loaded) = Inl e \<Longrightarrow> \<not> caught e"
proof (induction offers arbitrary: loaded)
  case Nil
  then show ?case by simp
next
  case (Cons offer offers)
  show ?case
  proof (cases "dict_get offer ''type''")
    case (Inl e')
    with Cons.prems show ?thesis by (auto dest: dict_get_not_caught)
  next
    case ty: (Inr offer_type)
    show ?thesis
    proof (cases "is_str offer_type \<and> (offer_type = JStr ''buy'' \<or> offer_type = JStr ''rent'')")
      case False
      with ty Cons show ?thesis by auto
    next
      case True
      show ?thesis
      proof (cases "dict_get offer ''assets''")
        case (Inl e')
        with ty True Cons.prems show ?thesis by (auto dest: dict_get_not_caught)
      next
        case as: (Inr assets_value)
        show ?thesis
        proof (cases "\<exists>assets. assets_value = JList assets \<and> length assets > 0")
          case False
          with ty True as Cons show ?thesis
            by (cases assets_value) auto
        next
          case nonempty: True
          then obtain assets where assets: "assets_value = JList assets" "length assets > 0"
            by blast
          obtain r loaded' where scan: "itunes_json_assets env assets loaded = (r, loaded')"
            by (cases "itunes_json_assets env assets loaded")
          show ?thesis
          proof (cases r)
            case (Inl e')
            with ty True as assets scan Cons.prems have "e' = e" by auto
            with Inl scan itunes_json_assets_not_caught [of env assets loaded e] show ?thesis
              by simp
          next
            case (Inr found)
            with ty True as assets scan Cons show ?thesis
              by (cases found) auto
          qed
        qed
      qed
    qed
  qed
qed

lemma appletv_playables_not_caught:
  "fst (appletv_playables env ids playables found loaded) = Inl e \<Longrightarrow> \<not> caught e"
proof (induction playables arbitrary: found loaded)
  case Nil
  then show ?case by simp
next
  case (Cons p playables)
  show ?case
  proof (cases "item p ''isItunes''")
    case (Inl e')
    with Cons.prems show ?thesis by (auto dest: item_not_caught)
  next
    case flag: (Inr is_itunes)
    show ?thesis
    proof (cases "truthy is_itunes")
      case False
      with flag Cons show ?thesis by auto
    next
      case True
      show ?thesis
      proof (cases "item p ''externalId''")
        case (Inl e')
        with flag True Cons.prems show ?thesis by (auto dest: item_not_caught)
      next
        case ext: (Inr itunes_id)
        show ?thesis
        proof (cases "hashable itunes_id")
          case False
          with flag True ext Cons.prems show ?thesis by (auto simp: caught_def)
        next
          case hash: True
          show ?thesis
          proof (cases "itunes_id \<in> set ids")
            case True
            with flag \<open>truthy is_itunes\<close> ext hash Cons show ?thesis by auto
          next
            case fresh: False
            show ?thesis
            proof (cases "exc_bind (item_path p [''itunesMediaApiData'', ''offers'']) py_iter")
              case (Inl e')
              then have "\<not> caught e'"
                by (auto simp: exc_bind_def split: sum.splits
                    dest: item_not_caught py_iter_not_caught)
              moreover from Inl flag True ext hash fresh Cons.prems have "e' = e" by auto
              ultimately show ?thesis by simp
            next
              case offers: (Inr offers)
              obtain r loaded' where scan: "appletv_offers env offers loaded = (r, loaded')"
                by (cases "appletv_offers env offers loaded")
              show ?thesis
              proof (cases r)
                case (Inl e')
                with flag True ext hash fresh offers scan Cons.prems have "e' = e" by auto
                with Inl scan appletv_offers_not_caught [of env offers loaded e] show ?thesis
                  by simp
              next
                case (Inr got)
                with flag True ext hash fresh offers scan Cons show ?thesis
                  by (cases got) auto
              qed
            qed
          qed
        qed
      qed
    qed
  qed
qed

lemma itunes_json_caught_before_loads:
  assumes "fst (find_playlist_data_itunes_json env json_data) = Inl e" and "caught e"
  shows "itunes_json_fields json_data = Inl e \<and> snd (find_playlist_data_itunes_json env json_data) = []"
proof (cases "itunes_json_fields json_data")
  case (Inl e')
  with assms show ?thesis by (simp add: find_playlist_data_itunes_json_def)
next
  case (Inr fields)
  obtain itunes_id movie_title year offers where f: "fields = (itunes_id, movie_title, year, offers)"
    by (cases fields)
  obtain r loaded where scan: "itunes_json_offers env offers [] = (r, loaded)"
    by (cases "itunes_json_offers env offers []")
  from assms(1) Inr f scan have "r = Inl e"
    by (cases r) (auto simp: find_playlist_data_itunes_json_def split: option.splits)
  with scan itunes_json_offers_not_caught [of env offers "[]" e] assms(2) show ?thesis
    by simp
qed

lemma appletv_json_caught_before_loads:
  assumes "fst (find_playlist_data_appletv_json env json_data) = Inl e" and "caught e"
  shows "appletv_json_fields env json_data = Inl e \<and> snd (find_playlist_data_appletv_json env json_data) = []"
proof (cases "appletv_json_fields env json_data")
  case (Inl e')
  with assms show ?thesis by (simp add: find_playlist_data_appletv_json_def)
next
  case (Inr fields)
  obtain movie_title year playables where f: "fields = (movie_title, year, playables)"
    by (cases fields)
  obtain r loaded where scan: "appletv_playables env [] playables [] [] = (r, loaded)"
    by (cases "appletv_playables env [] playables [] []")
  from assms(1) Inr f scan have "r = Inl e"
    by (cases r) (auto simp: find_playlist_data_appletv_json_def)
  with scan appletv_playables_not_caught [of env "[]" playables "[]" "[]" e] assms(2) show ?thesis
    by simp
qed

lemma demo_load_gone: "demo_load n (JStr ''https://gone.example/x.m3u8'') = Inl HTTPError"
  by (simp add: demo_load_def)

lemma demo_load_down: "demo_load n (JStr ''https://down.example/c.m3u8'') = Inl URLError"
  by (simp add: demo_load_def)

lemma demo_load_a: "demo_load n (JStr ''https://hls.example/a.m3u8'') = Inr empty_playlist"
  by (simp add: demo_load_def)

lemma asset_url: "item (asset url) ''hlsUrl'' = Inr (JStr url)"
  by (simp add: asset_def item_def)

lemma playable_fields:
  "item (playable external_id urls) ''isItunes'' = Inr (JBool True)"
  "item (playable external_id urls) ''externalId'' = Inr (JStr external_id)"
  "exc_bind (item_path (playable external_id urls) [''itunesMediaApiData'', ''offers'']) py_iter
     = Inr (map asset urls)"
  by (simp_all add: playable_def item_def exc_bind_def)

lemma load_at_beyond: "length loaded \<le> k \<Longrightarrow> load_at env loaded k = None"
  by (simp add: load_at_def)

lemma load_at_append_left:
  "k < length loaded \<Longrightarrow> load_at env (loaded @ ws) k = load_at env loaded k"
  by (simp add: load_at_def nth_append)

lemma load_at_first_new:
  "load_at env ((loaded @ [url]) @ us) (length loaded)
     = Some (m3u8_load_nth env (length loaded) url)"
  by (simp add: load_at_def nth_append)

lemma load_at_Some_less: "load_at env loaded k = Some x \<Longrightarrow> k < length loaded"
  by (simp add: load_at_def split: if_splits)

lemma itunes_json_assets_extends:
  "\<exists>us. snd (itunes_json_assets env assets loaded) = loaded @ us"
  using itunes_json_assets_loaded [of env assets loaded] by blast

lemma appletv_offers_extends:
  "\<exists>us. snd (appletv_offers env offers loaded) = loaded @ us"
  using appletv_offers_loaded [of env offers loaded] by blast

lemma itunes_json_assets_uncaught:
  assumes "length loaded \<le> k"
    and "load_at env (snd (itunes_json_assets env assets loaded)) k = Some (Inl e)"
    and "\<not> caught e"
  shows "fst (itunes_json_assets env assets loaded) = Inl e
       \<and> Suc k = length (snd (itunes_json_assets env assets loaded))"
  using assms(1,2)
proof (induction assets arbitrary: loaded)
  case Nil
  then show ?case by (simp add: load_at_beyond)
next
  case (Cons a assets)
  show ?case
  proof (cases "item a ''hlsUrl''")
    case (Inl e')
    with Cons.prems show ?thesis by (simp add: load_at_beyond)
  next
    case (Inr url)
    show ?thesis
    proof (cases "try_load env loaded url")
      case Loaded
      then obtain playlist where "m3u8_load_nth env (length loaded) url = Inr playlist"
        by (auto simp: try_load_Loaded)
      moreover from Cons.prems Inr Loaded have "k = length loaded"
        by (auto dest: load_at_Some_less)
      ultimately show ?thesis
        using Cons.prems Inr Loaded by (simp add: load_at_def)
    next
      case (Raised e')
      then have "m3u8_load_nth env (length loaded) url = Inl e'"
        by (simp add: try_load_Raised)
      moreover from Cons.prems Inr Raised have "k = length loaded"
        by (auto dest: load_at_Some_less)
      ultimately show ?thesis
        using Cons.prems Inr Raised by (simp add: load_at_def)
    next
      case Skipped
      then obtain e' where e': "m3u8_load_nth env (length loaded) url = Inl e'" "caught e'"
        by (auto simp: try_load_Skipped)
      from Inr Skipped have run: "itunes_json_assets env (a # assets) loaded
          = itunes_json_assets env assets (loaded @ [url])" by simp
      obtain us where us: "snd (itunes_json_assets env assets (loaded @ [url])) = (loaded @ [url]) @ us"
        using itunes_json_assets_extends by blast
      show ?thesis
      proof (cases "k = length loaded")
        case True
        with Cons.prems(2) run us e' assms(3) show ?thesis
          by (simp add: load_at_first_new del: append_assoc)
      next
        case False
        with Cons.prems(1) have "length (loaded @ [url]) \<le> k" by simp
        from Cons.IH [OF this] Cons.prems(2) run show ?thesis by simp
      qed
    qed
  qed
qed

lemma itunes_json_assets_refused:
  assumes "list_all candidate_shape assets"
    and "\<forall>k. length loaded \<le> k \<and> k < length (snd (itunes_json_assets env assets loaded)) \<longrightarrow>
           (\<exists>e. load_at env (snd (itunes_json_assets env assets loaded)) k = Some (Inl e) \<and> caught e)"
  shows "fst (itunes_json_assets env assets loaded) = Inr None"
  using assms
proof (induction assets arbitrary: loaded)
  case Nil
  then show ?case by simp
next
  case (Cons a assets)
  from Cons.prems(1) obtain url where url: "item a ''hlsUrl'' = Inr url"
    by (auto simp: candidate_shape_def split: sum.splits)
  show ?case
  proof (cases "try_load env loaded url")
    case Loaded
    then obtain playlist where "m3u8_load_nth env (length loaded) url = Inr playlist"
      by (auto simp: try_load_Loaded)
    with Cons.prems(2) url Loaded show ?thesis
      by (auto simp: load_at_def nth_append)
  next
    case (Raised e')
    then have "m3u8_load_nth env (length loaded) url = Inl e'" "\<not> caught e'"
      by (simp_all add: try_load_Raised)
    with Cons.prems(2) url Raised show ?thesis
      by (auto simp: load_at_def nth_append)
  next
    case Skipped
    with url have run: "itunes_json_assets env (a # assets) loaded
        = itunes_json_assets env assets (loaded @ [url])" by simp
    from Cons.prems(2) run have "\<forall>k. length (loaded @ [url]) \<le> k
          \<and> k < length (snd (itunes_json_assets env assets (loaded @ [url]))) \<longrightarrow>
           (\<exists>e. load_at env (snd (itunes_json_assets env assets (loaded @ [url]))) k = Some (Inl e)
                \<and> caught e)"
      by simp
    from Cons.IH [OF _ this] Cons.prems(1) run show ?thesis by simp
  qed
qed

lemma appletv_offers_uncaught:
  assumes "length loaded \<le> k"
    and "load_at env (snd (appletv_offers env offers loaded)) k = Some (Inl e)"
    and "\<not> caught e"
  shows "fst (appletv_offers env offers loaded) = Inl e
       \<and> Suc k = length (snd (appletv_offers env offers loaded))"
  using assms(1,2)
proof (induction offers arbitrary: loaded)
  case Nil
  then show ?case by (simp add: load_at_beyond)
next
  case (Cons a offers)
  show ?case
  proof (cases "item a ''hlsUrl''")
    case (Inl e')
    with Cons.prems show ?thesis by (simp add: load_at_beyond)
  next
    case (Inr url)
    show ?thesis
    proof (cases "try_load env loaded url")
      case Loaded
      then obtain playlist where "m3u8_load_nth env (length loaded) url = Inr playlist"
        by (auto simp: try_load_Loaded)
      moreover from Cons.prems Inr Loaded have "k = length loaded"
        by (auto dest: load_at_Some_less)
      ultimately show ?thesis
        using Cons.prems Inr Loaded by (simp add: load_at_def)
    next
      case (Raised e')
      then have "m3u8_load_nth env (length loaded) url = Inl e'"
        by (simp add: try_load_Raised)
      moreover from Cons.prems Inr Raised have "k = length loaded"
        by (auto dest: load_at_Some_less)
      ultimately show ?thesis
        using Cons.prems Inr Raised by (simp add: load_at_def)
    next
      case Skipped
      then obtain e' where e': "m3u8_load_nth env (length loaded) url = Inl e'" "caught e'"
        by (auto simp: try_load_Skipped)
      from Inr Skipped have run: "appletv_offers env (a # offers) loaded
          = appletv_offers env offers (loaded @ [url])" by simp
      obtain us where us: "snd (appletv_offers env offers (loaded @ [url])) = (loaded @ [url]) @ us"
        using appletv_offers_extends by blast
      show ?thesis
      proof (cases "k = length loaded")
        case True
        with Cons.prems(2) run us e' assms(3) show ?thesis
          by (simp add: load_at_first_new del: append_assoc)
      next
        case False
        with Cons.prems(1) have "length (loaded @ [url]) \<le> k" by simp
        from Cons.IH [OF this] Cons.prems(2) run show ?thesis by simp
      qed
    qed
  qed
qed

lemma appletv_offers_refused:
  assumes "list_all candidate_shape offers"
    and "\<forall>k. length loaded \<le> k \<and> k < length (snd (appletv_offers env offers loaded)) \<longrightarrow>
           (\<exists>e. load_at env (snd (appletv_offers env offers loaded)) k = Some (Inl e) \<and> caught e)"
  shows "fst (appletv_offers env offers loaded) = Inr None"
  using assms
proof (induction offers arbitrary: loaded)
  case Nil
  then show ?case by simp
next
  case (Cons a offers)
  from Cons.prems(1) obtain url where url: "item a ''hlsUrl'' = Inr url"
    by (auto simp: candidate_shape_def split: sum.splits)
  show ?case
  proof (cases "try_load env loaded url")
    case Loaded
    then obtain playlist where "m3u8_load_nth env (length loaded) url = Inr playlist"
      by (auto simp: try_load_Loaded)
    with Cons.prems(2) url Loaded show ?thesis
      by (auto simp: load_at_def nth_append)
  next
    case (Raised e')
    then have "m3u8_load_nth env (length loaded) url = Inl e'" "\<not> caught e'"
      by (simp_all add: try_load_Raised)
    with Cons.prems(2) url Raised show ?thesis
      by (auto simp: load_at_def nth_append)
  next
    case Skipped
    with url have run: "appletv_offers env (a # offers) loaded
        = appletv_offers env offers (loaded @ [url])" by simp
    from Cons.prems(2) run have "\<forall>k. length (loaded @ [url]) \<le> k
          \<and> k < length (snd (appletv_offers env offers (loaded @ [url]))) \<longrightarrow>
           (\<exists>e. load_at env (snd (appletv_offers env offers (loaded @ [url]))) k = Some (Inl e)
                \<and> caught e)"
      by simp
    from Cons.IH [OF _ this] Cons.prems(1) run show ?thesis by simp
  qed
qed

text \<open>The three ways one round of the loop over the offers can go.\<close>

lemma itunes_json_offers_step:
  "itunes_json_offers env (offer # rest) loaded = itunes_json_offers env rest loaded
   \<or> (\<exists>e. itunes_json_offers env (offer # rest) loaded = (Inl e, loaded))
   \<or> (\<exists>assets. dict_get offer ''assets'' = Inr (JList assets)
        \<and> itunes_json_offers env (offer # rest) loaded
            = (case itunes_json_assets env assets loaded of
                 (Inr None, loaded') \<Rightarrow> itunes_json_offers env rest loaded'
               | (Inr (Some hls_url), loaded') \<Rightarrow> (Inr (Some hls_url), loaded')
               | (Inl e, loaded') \<Rightarrow> (Inl e, loaded')))"
proof (cases "dict_get offer ''type''")
  case (Inl e)
  then show ?thesis by simp
next
  case ty: (Inr offer_type)
  show ?thesis
  proof (cases "is_str offer_type \<and> (offer_type = JStr ''buy'' \<or> offer_type = JStr ''rent'')")
    case False
    with ty show ?thesis by auto
  next
    case True
    show ?thesis
    proof (cases "dict_get offer ''assets''")
      case (Inl e)
      with ty True show ?thesis by auto
    next
      case (Inr assets_value)
      with ty True show ?thesis
        by (cases assets_value) auto
    qed
  qed
qed

lemma itunes_json_offers_extends:
  "\<exists>us. snd (itunes_json_offers env offers loaded) = loaded @ us"
proof (induction offers arbitrary: loaded)
  case Nil
  then show ?case by simp
next
  case (Cons offer offers)
  from itunes_json_offers_step [of env offer offers loaded] show ?case
  proof (elim disjE exE conjE)
    assume "itunes_json_offers env (offer # offers) loaded = itunes_json_offers env offers loaded"
    with Cons.IH [of loaded] show ?thesis by simp
  next
    fix e assume "itunes_json_offers env (offer # offers) loaded = (Inl e, loaded)"
    then show ?thesis by simp
  next
    fix assets
    assume step: "itunes_json_offers env (offer # offers) loaded
            = (case itunes_json_assets env assets loaded of
                 (Inr None, loaded') \<Rightarrow> itunes_json_offers env offers loaded'
               | (Inr (Some hls_url), loaded') \<Rightarrow> (Inr (Some hls_url), loaded')
               | (Inl e, loaded') \<Rightarrow> (Inl e, loaded'))"
    obtain r loaded' where inner: "itunes_json_assets env assets loaded = (r, loaded')"
      by (cases "itunes_json_assets env assets loaded")
    with itunes_json_assets_extends [of env assets loaded] obtain vs where vs: "loaded' = loaded @ vs"
      by auto
    from Cons.IH [of loaded'] obtain ws where "snd (itunes_json_offers env offers loaded') = loaded' @ ws"
      by blast
    with step inner vs show ?thesis
      by (auto split: sum.splits option.splits)
  qed
qed

lemma itunes_json_offers_uncaught:
  assumes "length loaded \<le> k"
    and "load_at env (snd (itunes_json_offers env offers loaded)) k = Some (Inl e)"
    and "\<not> caught e"
  shows "fst (itunes_json_offers env offers loaded) = Inl e
       \<and> Suc k = length (snd (itunes_json_offers env offers loaded))"
  using assms(1,2)
proof (induction offers arbitrary: loaded)
  case Nil
  then show ?case by (simp add: load_at_beyond)
next
  case (Cons offer offers)
  from itunes_json_offers_step [of env offer offers loaded] show ?case
  proof (elim disjE exE conjE)
    assume "itunes_json_offers env (offer # offers) loaded = itunes_json_offers env offers loaded"
    with Cons.IH [OF Cons.prems(1)] Cons.prems(2) show ?thesis by simp
  next
    fix e' assume "itunes_json_offers env (offer # offers) loaded = (Inl e', loaded)"
    with Cons.prems show ?thesis by (simp add: load_at_beyond)
  next
    fix assets
    assume step: "itunes_json_offers env (offer # offers) loaded
            = (case itunes_json_assets env assets loaded of
                 (Inr None, loaded') \<Rightarrow> itunes_json_offers env offers loaded'
               | (Inr (Some hls_url), loaded') \<Rightarrow> (Inr (Some hls_url), loaded')
               | (Inl e, loaded') \<Rightarrow> (Inl e, loaded'))"
    obtain r loaded' where inner: "itunes_json_assets env assets loaded = (r, loaded')"
      by (cases "itunes_json_assets env assets loaded")
    with itunes_json_assets_extends [of env assets loaded] obtain vs where vs: "loaded' = loaded @ vs"
      by auto
    note inner_uncaught = itunes_json_assets_uncaught [of loaded k env assets e, OF Cons.prems(1) _ assms(3)]
    show ?thesis
    proof (cases "r = Inr None")
      case False
      with step inner have same: "itunes_json_offers env (offer # offers) loaded = (r, loaded')"
        by (auto split: sum.splits option.splits)
      with Cons.prems(2) inner inner_uncaught show ?thesis by simp
    next
      case True
      with step inner have run: "itunes_json_offers env (offer # offers) loaded
          = itunes_json_offers env offers loaded'" by simp
      obtain ws where ws: "snd (itunes_json_offers env offers loaded') = loaded' @ ws"
        using itunes_json_offers_extends by blast
      show ?thesis
      proof (cases "k < length loaded'")
        case less: True
        with Cons.prems(2) run ws have "load_at env loaded' k = Some (Inl e)"
          by (simp add: load_at_append_left)
        with inner inner_uncaught True show ?thesis by simp
      next
        case False
        then have "length loaded' \<le> k" by simp
        from Cons.IH [OF this] Cons.prems(2) run show ?thesis by simp
      qed
    qed
  qed
qed

lemma itunes_offer_shape_assets:
  "itunes_offer_shape offer \<Longrightarrow> dict_get offer ''assets'' = Inr (JList assets) \<Longrightarrow>
   list_all candidate_shape assets"
  by (simp add: itunes_offer_shape_def)


lemma itunes_json_offers_refused:
  assumes "list_all itunes_offer_shape offers"
    and "\<forall>k. length loaded \<le> k \<and> k < length (snd (itunes_json_offers env offers loaded)) \<longrightarrow>
           (\<exists>e. load_at env (snd (itunes_json_offers env offers loaded)) k = Some (Inl e) \<and> caught e)"
  shows "fst (itunes_json_offers env offers loaded) = Inr None"
  using assms
proof (induction offers arbitrary: loaded)
  case Nil
  then show ?case by simp
next
  case (Cons offer offers)
  then have shape: "itunes_offer_shape offer" and rest: "list_all itunes_offer_shape offers"
    by simp_all
  from shape obtain kvs where dict: "offer = JDict kvs"
    by (cases offer) (auto simp: itunes_offer_shape_def)
  have skip: ?case
    if "itunes_json_offers env (offer # offers) loaded = itunes_json_offers env offers loaded"
    using that Cons.IH [OF rest, of loaded] Cons.prems(2) by simp
  show ?case
  proof (cases "map_of kvs ''assets''")
    case None
    with dict show ?thesis by (intro skip) simp
  next
    case (Some assets_value)
    show ?thesis
    proof (cases "\<exists>assets. assets_value = JList assets")
      case False
      with dict Some show ?thesis by (intro skip) (cases assets_value; simp)
    next
      case True
      then obtain assets where assets: "assets_value = JList assets" by blast
      with shape dict Some have cands: "list_all candidate_shape assets"
        by (simp add: itunes_offer_shape_def)
      show ?thesis
      proof (cases "itunes_json_offers env (offer # offers) loaded
                      = itunes_json_offers env offers loaded")
        case True
        then show ?thesis by (rule skip)
      next
        case False
        with dict Some assets have step: "itunes_json_offers env (offer # offers) loaded
            = (case itunes_json_assets env assets loaded of
                 (Inr None, loaded') \<Rightarrow> itunes_json_offers env offers loaded'
               | (Inr (Some hls_url), loaded') \<Rightarrow> (Inr (Some hls_url), loaded')
               | (Inl e, loaded') \<Rightarrow> (Inl e, loaded'))"
          by (auto split: if_splits)
        obtain r loaded' where inner: "itunes_json_assets env assets loaded = (r, loaded')"
          by (cases "itunes_json_assets env assets loaded")
        obtain ws where ws: "snd (itunes_json_offers env (offer # offers) loaded) = loaded' @ ws"
        proof (cases "r = Inr None")
          case True
          with step inner itunes_json_offers_extends [of env offers loaded'] that show ?thesis
            by auto
        next
          case False
          with step inner have "snd (itunes_json_offers env (offer # offers) loaded) = loaded' @ []"
            by (auto split: sum.splits option.splits)
          with that show ?thesis by blast
        qed
        have "\<forall>k. length loaded \<le> k \<and> k < length (snd (itunes_json_assets env assets loaded)) \<longrightarrow>
           (\<exists>e. load_at env (snd (itunes_json_assets env assets loaded)) k = Some (Inl e) \<and> caught e)"
        proof (intro allI impI)
          fix k assume k: "length loaded \<le> k \<and> k < length (snd (itunes_json_assets env assets loaded))"
          with inner have "k < length loaded'" by simp
          with ws have "load_at env (snd (itunes_json_offers env (offer # offers) loaded)) k
              = load_at env loaded' k" by (simp add: load_at_append_left)
          moreover from k inner ws
          have "\<exists>e. load_at env (snd (itunes_json_offers env (offer # offers) loaded)) k = Some (Inl e)
                  \<and> caught e"
            using Cons.prems(2) by simp
          ultimately show "\<exists>e. load_at env (snd (itunes_json_assets env assets loaded)) k = Some (Inl e)
                  \<and> caught e"
            using inner by simp
        qed
        from itunes_json_assets_refused [OF cands this] inner have r: "r = Inr None" by simp
        with step inner have run: "itunes_json_offers env (offer # offers) loaded
            = itunes_json_offers env offers loaded'" by simp
        from itunes_json_assets_extends [of env assets loaded] inner
        have "length loaded \<le> length loaded'" by auto
        with Cons.prems(2) run
        have "\<forall>k. length loaded' \<le> k \<and> k < length (snd (itunes_json_offers env offers loaded')) \<longrightarrow>
           (\<exists>e. load_at env (snd (itunes_json_offers env offers loaded')) k = Some (Inl e) \<and> caught e)"
          by simp
        from Cons.IH [OF rest this] run show ?thesis by simp
      qed
    qed
  qed
qed

lemma appletv_playables_step:
  "appletv_playables env ids (p # rest) found loaded = appletv_playables env ids rest found loaded
   \<or> (\<exists>e. appletv_playables env ids (p # rest) found loaded = (Inl e, loaded))
   \<or> (\<exists>itunes_id offers.
         exc_bind (item_path p [''itunesMediaApiData'', ''offers'']) py_iter = Inr offers
         \<and> appletv_playables env ids (p # rest) found loaded
            = (case appletv_offers env offers loaded of
                 (Inl e, loaded') \<Rightarrow> (Inl e, loaded')
               | (Inr (Some hls_url), loaded') \<Rightarrow>
                   appletv_playables env ids rest (found @ [PlaylistData itunes_id hls_url]) loaded'
               | (Inr None, loaded') \<Rightarrow> appletv_playables env ids rest found loaded'))"
proof (cases "item p ''isItunes''")
  case (Inl e)
  then show ?thesis by simp
next
  case flag: (Inr is_itunes)
  show ?thesis
  proof (cases "truthy is_itunes")
    case False
    with flag show ?thesis by simp
  next
    case True
    show ?thesis
    proof (cases "item p ''externalId''")
      case (Inl e)
      with flag True show ?thesis by simp
    next
      case ext: (Inr itunes_id)
      show ?thesis
      proof (cases "hashable itunes_id \<and> itunes_id \<notin> set ids")
        case False
        with flag True ext show ?thesis by auto
      next
        case fresh: True
        show ?thesis
        proof (cases "exc_bind (item_path p [''itunesMediaApiData'', ''offers'']) py_iter")
          case (Inl e)
          with flag True ext fresh show ?thesis by simp
        next
          case (Inr offers)
          with flag True ext fresh
          have "appletv_playables env ids (p # rest) found loaded
            = (case appletv_offers env offers loaded of
                 (Inl e, loaded') \<Rightarrow> (Inl e, loaded')
               | (Inr (Some hls_url), loaded') \<Rightarrow>
                   appletv_playables env ids rest (found @ [PlaylistData itunes_id hls_url]) loaded'
               | (Inr None, loaded') \<Rightarrow> appletv_playables env ids rest found loaded')"
            by (simp split: prod.splits sum.splits option.splits)
          with Inr show ?thesis by blast
        qed
      qed
    qed
  qed
qed

lemma appletv_playables_extends:
  "\<exists>us. snd (appletv_playables env ids playables found loaded) = loaded @ us"
proof (induction playables arbitrary: found loaded)
  case Nil
  then show ?case by simp
next
  case (Cons p playables)
  from appletv_playables_step [of env ids p playables found loaded] show ?case
  proof (elim disjE exE conjE)
    assume "appletv_playables env ids (p # playables) found loaded
              = appletv_playables env ids playables found loaded"
    with Cons.IH [of found loaded] show ?thesis by simp
  next
    fix e assume "appletv_playables env ids (p # playables) found loaded = (Inl e, loaded)"
    then show ?thesis by simp
  next
    fix itunes_id offers
    assume step: "appletv_playables env ids (p # playables) found loaded
            = (case appletv_offers env offers loaded of
                 (Inl e, loaded') \<Rightarrow> (Inl e, loaded')
               | (Inr (Some hls_url), loaded') \<Rightarrow>
                   appletv_playables env ids playables (found @ [PlaylistData itunes_id hls_url]) loaded'
               | (Inr None, loaded') \<Rightarrow> appletv_playables env ids playables found loaded')"
    obtain r loaded' where inner: "appletv_offers env offers loaded = (r, loaded')"
      by (cases "appletv_offers env offers loaded")
    with appletv_offers_extends [of env offers loaded] obtain vs where vs: "loaded' = loaded @ vs"
      by auto
    have "\<exists>ws. snd (appletv_playables env ids playables f loaded') = loaded' @ ws" for f
      using Cons.IH [of f loaded'] .
    with step inner vs show ?thesis
      by (auto split: sum.splits option.splits)
  qed
qed

lemma appletv_playables_uncaught:
  assumes "length loaded \<le> k"
    and "load_at env (snd (appletv_playables env ids playables found loaded)) k = Some (Inl e)"
    and "\<not> caught e"
  shows "fst (appletv_playables env ids playables found loaded) = Inl e
       \<and> Suc k = length (snd (appletv_playables env ids playables found loaded))"
  using assms(1,2)
proof (induction playables arbitrary: found loaded)
  case Nil
  then show ?case by (simp add: load_at_beyond)
next
  case (Cons p playables)
  from appletv_playables_step [of env ids p playables found loaded] show ?case
  proof (elim disjE exE conjE)
    assume "appletv_playables env ids (p # playables) found loaded
              = appletv_playables env ids playables found loaded"
    with Cons.IH [OF Cons.prems(1)] Cons.prems(2) show ?thesis by simp
  next
    fix e' assume "appletv_playables env ids (p # playables) found loaded = (Inl e', loaded)"
    with Cons.prems show ?thesis by (simp add: load_at_beyond)
  next
    fix itunes_id offers
    assume step: "appletv_playables env ids (p # playables) found loaded
            = (case appletv_offers env offers loaded of
                 (Inl e, loaded') \<Rightarrow> (Inl e, loaded')
               | (Inr (Some hls_url), loaded') \<Rightarrow>
                   appletv_playables env ids playables (found @ [PlaylistData itunes_id hls_url]) loaded'
               | (Inr None, loaded') \<Rightarrow> appletv_playables env ids playables found loaded')"
    obtain r loaded' where inner: "appletv_offers env offers loaded = (r, loaded')"
      by (cases "appletv_offers env offers loaded")
    with appletv_offers_extends [of env offers loaded] obtain vs where vs: "loaded' = loaded @ vs"
      by auto
    note inner_uncaught = appletv_offers_uncaught [of loaded k env offers e, OF Cons.prems(1) _ assms(3)]
    show ?thesis
    proof (cases r)
      case (Inl e')
      with step inner have "appletv_playables env ids (p # playables) found loaded = (Inl e', loaded')"
        by simp
      with Cons.prems(2) inner inner_uncaught Inl show ?thesis by simp
    next
      case (Inr got)
      define found' where "found' = (case got of None \<Rightarrow> found
                                     | Some hls_url \<Rightarrow> found @ [PlaylistData itunes_id hls_url])"
      from step inner Inr have run: "appletv_playables env ids (p # playables) found loaded
          = appletv_playables env ids playables found' loaded'"
        by (simp add: found'_def split: option.splits)
      obtain ws where ws: "snd (appletv_playables env ids playables found' loaded') = loaded' @ ws"
        using appletv_playables_extends by blast
      show ?thesis
      proof (cases "k < length loaded'")
        case True
        with Cons.prems(2) run ws have "load_at env loaded' k = Some (Inl e)"
          by (simp add: load_at_append_left)
        with inner inner_uncaught Inr show ?thesis by simp
      next
        case False
        then have "length loaded' \<le> k" by simp
        from Cons.IH [OF this] Cons.prems(2) run show ?thesis by simp
      qed
    qed
  qed
qed

lemma appletv_playables_refused:
  assumes "list_all appletv_playable_shape playables"
    and "\<forall>k. length loaded \<le> k
            \<and> k < length (snd (appletv_playables env ids playables found loaded)) \<longrightarrow>
           (\<exists>e. load_at env (snd (appletv_playables env ids playables found loaded)) k = Some (Inl e)
                \<and> caught e)"
  shows "fst (appletv_playables env ids playables found loaded) = Inr found"
  using assms
proof (induction playables arbitrary: loaded)
  case Nil
  then show ?case by simp
next
  case (Cons p playables)
  then have shape: "appletv_playable_shape p" and rest: "list_all appletv_playable_shape playables"
    by simp_all
  from shape obtain is_itunes where flag: "item p ''isItunes'' = Inr is_itunes"
    by (auto simp: appletv_playable_shape_def split: sum.splits)
  have skip: ?case
    if "appletv_playables env ids (p # playables) found loaded
          = appletv_playables env ids playables found loaded"
    using that Cons.IH [OF rest, of loaded] Cons.prems(2) by simp
  show ?case
  proof (cases "truthy is_itunes")
    case False
    with flag show ?thesis by (intro skip) simp
  next
    case True
    with shape flag obtain itunes_id offers where
      ext: "item p ''externalId'' = Inr itunes_id" and hash: "hashable itunes_id"
      and offers: "exc_bind (item_path p [''itunesMediaApiData'', ''offers'']) py_iter = Inr offers"
      and cands: "list_all candidate_shape offers"
      by (auto simp: appletv_playable_shape_def split: sum.splits)
    show ?thesis
    proof (cases "itunes_id \<in> set ids")
      case True
      with flag \<open>truthy is_itunes\<close> ext hash show ?thesis by (intro skip) simp
    next
      case False
      with flag True ext hash offers
      have step: "appletv_playables env ids (p # playables) found loaded
            = (case appletv_offers env offers loaded of
                 (Inl e, loaded') \<Rightarrow> (Inl e, loaded')
               | (Inr (Some hls_url), loaded') \<Rightarrow>
                   appletv_playables env ids playables (found @ [PlaylistData itunes_id hls_url]) loaded'
               | (Inr None, loaded') \<Rightarrow> appletv_playables env ids playables found loaded')"
        by (simp split: prod.splits sum.splits option.splits)
      obtain r loaded' where inner: "appletv_offers env offers loaded = (r, loaded')"
        by (cases "appletv_offers env offers loaded")
      obtain ws where ws: "snd (appletv_playables env ids (p # playables) found loaded) = loaded' @ ws"
      proof (cases r)
        case (Inl e)
        with step inner have "snd (appletv_playables env ids (p # playables) found loaded) = loaded' @ []"
          by simp
        with that show ?thesis by blast
      next
        case (Inr got)
        with step inner that show ?thesis
          using appletv_playables_extends [of env ids playables _ loaded']
          by (cases got) auto
      qed
      have "\<forall>k. length loaded \<le> k \<and> k < length (snd (appletv_offers env offers loaded)) \<longrightarrow>
           (\<exists>e. load_at env (snd (appletv_offers env offers loaded)) k = Some (Inl e) \<and> caught e)"
      proof (intro allI impI)
        fix k assume k: "length loaded \<le> k \<and> k < length (snd (appletv_offers env offers loaded))"
        with inner have "k < length loaded'" by simp
        with ws have "load_at env (snd (appletv_playables env ids (p # playables) found loaded)) k
            = load_at env loaded' k" by (simp add: load_at_append_left)
        moreover from k inner ws
        have "\<exists>e. load_at env (snd (appletv_playables env ids (p # playables) found loaded)) k
                    = Some (Inl e) \<and> caught e"
          using Cons.prems(2) by simp
        ultimately show "\<exists>e. load_at env (snd (appletv_offers env offers loaded)) k = Some (Inl e)
                \<and> caught e"
          using inner by simp
      qed
      from appletv_offers_refused [OF cands this] inner have r: "r = Inr None" by simp
      with step inner have run: "appletv_playables env ids (p # playables) found loaded
          = appletv_playables env ids playables found loaded'" by simp
      from appletv_offers_extends [of env offers loaded] inner
      have "length loaded \<le> length loaded'" by auto
      with Cons.prems(2) run
      have "\<forall>k. length loaded' \<le> k
              \<and> k < length (snd (appletv_playables env ids playables found loaded')) \<longrightarrow>
           (\<exists>e. load_at env (snd (appletv_playables env ids playables found loaded')) k = Some (Inl e)
                \<and> caught e)"
        by simp
      from Cons.IH [OF rest this] run show ?thesis by simp
    qed
  qed
qed

lemma itunes_json_uncaught:
  assumes "load_at env (snd (find_playlist_data_itunes_json env json_data)) k = Some (Inl e)"
    and "\<not> caught e"
  shows "fst (find_playlist_data_itunes_json env json_data) = Inl e
       \<and> Suc k = length (snd (find_playlist_data_itunes_json env json_data))"
proof (cases "itunes_json_fields json_data")
  case (Inl e')
  with assms(1) show ?thesis
    by (simp add: find_playlist_data_itunes_json_def load_at_def)
next
  case (Inr fields)
  obtain itunes_id movie_title year offers where f: "fields = (itunes_id, movie_title, year, offers)"
    by (cases fields)
  obtain r loaded where scan: "itunes_json_offers env offers [] = (r, loaded)"
    by (cases "itunes_json_offers env offers []")
  with Inr f have out: "snd (find_playlist_data_itunes_json env json_data) = loaded"
    by (simp add: find_playlist_data_itunes_json_def split: sum.splits option.splits)
  with assms(1) scan have "load_at env (snd (itunes_json_offers env offers [])) k = Some (Inl e)"
    by simp
  from itunes_json_offers_uncaught [OF _ this assms(2)] scan
  have "r = Inl e" "Suc k = length loaded" by simp_all
  with Inr f scan out show ?thesis
    by (simp add: find_playlist_data_itunes_json_def)
qed

lemma appletv_json_uncaught:
  assumes "load_at env (snd (find_playlist_data_appletv_json env json_data)) k = Some (Inl e)"
    and "\<not> caught e"
  shows "fst (find_playlist_data_appletv_json env json_data) = Inl e
       \<and> Suc k = length (snd (find_playlist_data_appletv_json env json_data))"
proof (cases "appletv_json_fields env json_data")
  case (Inl e')
  with assms(1) show ?thesis
    by (simp add: find_playlist_data_appletv_json_def load_at_def)
next
  case (Inr fields)
  obtain movie_title year playables where f: "fields = (movie_title, year, playables)"
    by (cases fields)
  obtain r loaded where scan: "appletv_playables env [] playables [] [] = (r, loaded)"
    by (cases "appletv_playables env [] playables [] []")
  with Inr f have out: "snd (find_playlist_data_appletv_json env json_data) = loaded"
    by (simp add: find_playlist_data_appletv_json_def split: sum.splits)
  with assms(1) scan have "load_at env (snd (appletv_playables env [] playables [] [])) k = Some (Inl e)"
    by simp
  from appletv_playables_uncaught [OF _ this assms(2)] scan
  have "r = Inl e" "Suc k = length loaded" by simp_all
  with Inr f scan out show ?thesis
    by (simp add: find_playlist_data_appletv_json_def)
qed

lemma itunes_json_refused:
  assumes "itunes_json_fields json_data = Inr (itunes_id, movie_title, year, offers)"
    and "list_all itunes_offer_shape offers"
    and "\<forall>k < length (snd (find_playlist_data_itunes_json env json_data)).
           \<exists>e. load_at env (snd (find_playlist_data_itunes_json env json_data)) k = Some (Inl e)
               \<and> caught e"
  shows "fst (find_playlist_data_itunes_json env json_data)
           = Inr \<lparr>data_source = ITUNES, name = movie_title, release_year = year, playlists = []\<rparr>"
proof -
  obtain r loaded where scan: "itunes_json_offers env offers [] = (r, loaded)"
    by (cases "itunes_json_offers env offers []")
  with assms(1) have out: "snd (find_playlist_data_itunes_json env json_data) = loaded"
    by (simp add: find_playlist_data_itunes_json_def split: sum.splits option.splits)
  with assms(3) scan
  have "\<forall>k. length ([] :: json list) \<le> k \<and> k < length (snd (itunes_json_offers env offers [])) \<longrightarrow>
           (\<exists>e. load_at env (snd (itunes_json_offers env offers [])) k = Some (Inl e) \<and> caught e)"
    by simp
  from itunes_json_offers_refused [OF assms(2) this] scan have "r = Inr None" by simp
  with assms(1) scan show ?thesis
    by (simp add: find_playlist_data_itunes_json_def)
qed

lemma appletv_json_refused:
  assumes "appletv_json_fields env json_data = Inr (movie_title, year, playables)"
    and "list_all appletv_playable_shape playables"
    and "\<forall>k < length (snd (find_playlist_data_appletv_json env json_data)).
           \<exists>e. load_at env (snd (find_playlist_data_appletv_json env json_data)) k = Some (Inl e)
               \<and> caught e"
  shows "fst (find_playlist_data_appletv_json env json_data)
           = Inr \<lparr>data_source = APPLETV, name = movie_title, release_year = year, playlists = []\<rparr>"
proof -
  obtain r loaded where scan: "appletv_playables env [] playables [] [] = (r, loaded)"
    by (cases "appletv_playables env [] playables [] []")
  with assms(1) have out: "snd (find_playlist_data_appletv_json env json_data) = loaded"
    by (simp add: find_playlist_data_appletv_json_def split: sum.splits)
  with assms(3) scan
  have "\<forall>k. length ([] :: json list) \<le> k
            \<and> k < length (snd (appletv_playables env [] playables [] [])) \<longrightarrow>
           (\<exists>e. load_at env (snd (appletv_playables env [] playables [] [])) k = Some (Inl e)
                \<and> caught e)"
    by simp
  from appletv_playables_refused [OF assms(2) this] scan have "r = Inr []" by simp
  with assms(1) scan show ?thesis
    by (simp add: find_playlist_data_appletv_json_def)
qed

lemma itunes_json_swallowed:
  assumes "load_at env (snd (find_playlist_data_itunes_json env json_data)) k = Some (Inl e)"
    and "caught e"
  shows "fst (find_playlist_data_itunes_json env json_data) \<noteq> Inl e"
proof
  assume "fst (find_playlist_data_itunes_json env json_data) = Inl e"
  from itunes_json_caught_before_loads [OF this assms(2)] assms(1) show False
    by (simp add: load_at_def)
qed

lemma appletv_json_swallowed:
  assumes "load_at env (snd (find_playlist_data_appletv_json env json_data)) k = Some (Inl e)"
    and "caught e"
  shows "fst (find_playlist_data_appletv_json env json_data) \<noteq> Inl e"
proof
  assume "fst (find_playlist_data_appletv_json env json_data) = Inl e"
  from appletv_json_caught_before_loads [OF this assms(2)] assms(1) show False
    by (simp add: load_at_def)
qed

lemma candidate_urls_Cons:
  "candidate_urls (c # cs)
     = (case item c ''hlsUrl'' of Inr u \<Rightarrow> [u] | Inl e \<Rightarrow> []) @ candidate_urls cs"
  by (simp add: candidate_urls_def)

lemma itunes_json_assets_once:
  "\<exists>us. snd (itunes_json_assets env assets loaded) = loaded @ us \<and> subseq us (candidate_urls assets)"
proof (induction assets arbitrary: loaded)
  case Nil
  then show ?case by simp
next
  case (Cons a assets)
  show ?case
  proof (cases "item a ''hlsUrl''")
    case (Inl e)
    then show ?thesis by simp
  next
    case (Inr url)
    then have urls: "candidate_urls (a # assets) = url # candidate_urls assets"
      by (simp add: candidate_urls_Cons)
    show ?thesis
    proof (cases "try_load env loaded url")
      case Loaded
      with Inr urls show ?thesis by (intro exI [of _ "[url]"]) simp
    next
      case (Raised e)
      with Inr urls show ?thesis by (intro exI [of _ "[url]"]) simp
    next
      case Skipped
      from Cons.IH [of "loaded @ [url]"] obtain us where
        "snd (itunes_json_assets env assets (loaded @ [url])) = (loaded @ [url]) @ us"
        "subseq us (candidate_urls assets)" by blast
      with Inr Skipped urls show ?thesis by (intro exI [of _ "url # us"]) simp
    qed
  qed
qed

lemma appletv_offers_once:
  "\<exists>us. snd (appletv_offers env offers loaded) = loaded @ us \<and> subseq us (candidate_urls offers)"
proof (induction offers arbitrary: loaded)
  case Nil
  then show ?case by simp
next
  case (Cons a offers)
  show ?case
  proof (cases "item a ''hlsUrl''")
    case (Inl e)
    then show ?thesis by simp
  next
    case (Inr url)
    then have urls: "candidate_urls (a # offers) = url # candidate_urls offers"
      by (simp add: candidate_urls_Cons)
    show ?thesis
    proof (cases "try_load env loaded url")
      case Loaded
      with Inr urls show ?thesis by (intro exI [of _ "[url]"]) simp
    next
      case (Raised e)
      with Inr urls show ?thesis by (intro exI [of _ "[url]"]) simp
    next
      case Skipped
      from Cons.IH [of "loaded @ [url]"] obtain us where
        "snd (appletv_offers env offers (loaded @ [url])) = (loaded @ [url]) @ us"
        "subseq us (candidate_urls offers)" by blast
      with Inr Skipped urls show ?thesis by (intro exI [of _ "url # us"]) simp
    qed
  qed
qed

lemma itunes_json_offers_once:
  "\<exists>us. snd (itunes_json_offers env offers loaded) = loaded @ us
        \<and> subseq us (itunes_candidates offers)"
proof (induction offers arbitrary: loaded)
  case Nil
  then show ?case by simp
next
  case (Cons offer offers)
  have cands: "itunes_candidates (offer # offers)
      = (case dict_get offer ''assets'' of Inr (JList assets) \<Rightarrow> candidate_urls assets | _ \<Rightarrow> [])
        @ itunes_candidates offers"
    by (simp add: itunes_candidates_def)
  from itunes_json_offers_step [of env offer offers loaded] show ?case
  proof (elim disjE exE conjE)
    assume "itunes_json_offers env (offer # offers) loaded = itunes_json_offers env offers loaded"
    moreover from Cons.IH [of loaded] obtain us where
      "snd (itunes_json_offers env offers loaded) = loaded @ us" "subseq us (itunes_candidates offers)"
      by blast
    ultimately show ?thesis
      unfolding cands by (intro exI [of _ us]) (simp add: list_emb_append2)
  next
    fix e assume "itunes_json_offers env (offer # offers) loaded = (Inl e, loaded)"
    then show ?thesis by simp
  next
    fix assets
    assume assets: "dict_get offer ''assets'' = Inr (JList assets)"
      and step: "itunes_json_offers env (offer # offers) loaded
            = (case itunes_json_assets env assets loaded of
                 (Inr None, loaded') \<Rightarrow> itunes_json_offers env offers loaded'
               | (Inr (Some hls_url), loaded') \<Rightarrow> (Inr (Some hls_url), loaded')
               | (Inl e, loaded') \<Rightarrow> (Inl e, loaded'))"
    obtain r loaded' where inner: "itunes_json_assets env assets loaded = (r, loaded')"
      by (cases "itunes_json_assets env assets loaded")
    with itunes_json_assets_once [of env assets loaded] obtain vs where
      vs: "loaded' = loaded @ vs" "subseq vs (candidate_urls assets)" by auto
    from Cons.IH [of loaded'] obtain ws where
      ws: "snd (itunes_json_offers env offers loaded') = loaded' @ ws"
        "subseq ws (itunes_candidates offers)" by blast
    have both: "subseq (vs @ ws) (candidate_urls assets @ itunes_candidates offers)"
      using vs(2) ws(2) by (rule list_emb_append_mono)
    have alone: "subseq vs (candidate_urls assets @ itunes_candidates offers)"
      using vs(2) by (rule list_emb_prefix)
    show ?thesis
    proof (cases "r = Inr None")
      case True
      with step inner vs(1) ws(1) both assets cands show ?thesis
        by (intro exI [of _ "vs @ ws"]) simp
    next
      case False
      with step inner have "itunes_json_offers env (offer # offers) loaded = (r, loaded')"
        by (auto split: sum.splits option.splits)
      with vs(1) alone assets cands show ?thesis
        by (intro exI [of _ vs]) simp
    qed
  qed
qed


lemma appletv_playables_once:
  "\<exists>us. snd (appletv_playables env ids playables found loaded) = loaded @ us
        \<and> subseq us (appletv_candidates playables)"
proof (induction playables arbitrary: found loaded)
  case Nil
  then show ?case by simp
next
  case (Cons p playables)
  have cands: "appletv_candidates (p # playables)
      = (case exc_bind (item_path p [''itunesMediaApiData'', ''offers'']) py_iter of
           Inr offers \<Rightarrow> candidate_urls offers | Inl e \<Rightarrow> [])
        @ appletv_candidates playables"
    by (simp add: appletv_candidates_def del: item_path.simps)
  from appletv_playables_step [of env ids p playables found loaded] show ?case
  proof (elim disjE exE conjE)
    assume "appletv_playables env ids (p # playables) found loaded
              = appletv_playables env ids playables found loaded"
    moreover from Cons.IH [of found loaded] obtain us where
      "snd (appletv_playables env ids playables found loaded) = loaded @ us"
      "subseq us (appletv_candidates playables)"
      by blast
    ultimately show ?thesis
      unfolding cands by (intro exI [of _ us]) (simp add: list_emb_append2 del: item_path.simps)
  next
    fix e assume "appletv_playables env ids (p # playables) found loaded = (Inl e, loaded)"
    then show ?thesis by simp
  next
    fix itunes_id offers
    assume offers: "exc_bind (item_path p [''itunesMediaApiData'', ''offers'']) py_iter = Inr offers"
      and step: "appletv_playables env ids (p # playables) found loaded
            = (case appletv_offers env offers loaded of
                 (Inl e, loaded') \<Rightarrow> (Inl e, loaded')
               | (Inr (Some hls_url), loaded') \<Rightarrow>
                   appletv_playables env ids playables (found @ [PlaylistData itunes_id hls_url]) loaded'
               | (Inr None, loaded') \<Rightarrow> appletv_playables env ids playables found loaded')"
    have cands': "appletv_candidates (p # playables)
        = candidate_urls offers @ appletv_candidates playables"
      unfolding cands offers by simp
    obtain r loaded' where inner: "appletv_offers env offers loaded = (r, loaded')"
      by (cases "appletv_offers env offers loaded")
    with appletv_offers_once [of env offers loaded] obtain vs where
      vs: "loaded' = loaded @ vs" "subseq vs (candidate_urls offers)" by auto
    have alone: "subseq vs (candidate_urls offers @ appletv_candidates playables)"
      using vs(2) by (rule list_emb_prefix)
    show ?thesis
    proof (cases r)
      case (Inl e)
      with step inner have "appletv_playables env ids (p # playables) found loaded = (Inl e, loaded')"
        by simp
      with vs(1) alone cands' show ?thesis
        by (intro exI [of _ vs]) simp
    next
      case (Inr got)
      define found' where "found' = (case got of None \<Rightarrow> found
                                     | Some hls_url \<Rightarrow> found @ [PlaylistData itunes_id hls_url])"
      from step inner Inr have run: "appletv_playables env ids (p # playables) found loaded
          = appletv_playables env ids playables found' loaded'"
        by (simp add: found'_def split: option.splits)
      from Cons.IH [of found' loaded'] obtain ws where
        ws: "snd (appletv_playables env ids playables found' loaded') = loaded' @ ws"
          "subseq ws (appletv_candidates playables)" by blast
      have "subseq (vs @ ws) (candidate_urls offers @ appletv_candidates playables)"
        using vs(2) ws(2) by (rule list_emb_append_mono)
      with run vs(1) ws(1) cands' show ?thesis
        by (intro exI [of _ "vs @ ws"]) simp
    qed
  qed
qed

lemma itunes_json_once:
  assumes "itunes_json_fields json_data = Inr (itunes_id, movie_title, year, offers)"
  shows "subseq (snd (find_playlist_data_itunes_json env json_data)) (itunes_candidates offers)"
proof -
  obtain r loaded where scan: "itunes_json_offers env offers [] = (r, loaded)"
    by (cases "itunes_json_offers env offers []")
  with assms have "snd (find_playlist_data_itunes_json env json_data) = loaded"
    by (simp add: find_playlist_data_itunes_json_def split: sum.splits option.splits)
  with itunes_json_offers_once [of env offers "[]"] scan show ?thesis by simp
qed

lemma appletv_json_once:
  assumes "appletv_json_fields env json_data = Inr (movie_title, year, playables)"
  shows "subseq (snd (find_playlist_data_appletv_json env json_data)) (appletv_candidates playables)"
proof -
  obtain r loaded where scan: "appletv_playables env [] playables [] [] = (r, loaded)"
    by (cases "appletv_playables env [] playables [] []")
  with assms have "snd (find_playlist_data_appletv_json env json_data) = loaded"
    by (simp add: find_playlist_data_appletv_json_def split: sum.splits)
  with appletv_playables_once [of env "[]" playables "[]" "[]"] scan show ?thesis by simp
qed

lemma unreachable_appletv_run:
  "find_playlist_data_appletv_json demo_scraper_env
     (appletv_page (JInt 1625788800000) [(''p1'', playable ''1500'' [''https://down.example/c.m3u8''])])
     = (Inl URLError, [JStr ''https://down.example/c.m3u8''])"
proof -
  have fields: "appletv_json_fields demo_scraper_env
     (appletv_page (JInt 1625788800000) [(''p1'', playable ''1500'' [''https://down.example/c.m3u8''])])
     = Inr (JStr ''Example Movie'', 2021, [playable ''1500'' [''https://down.example/c.m3u8'']])"
    by (simp add: appletv_json_fields_def appletv_page_def item_def exc_bind_def
        appletv_release_year_def demo_env_utcoffset fromtimestamp_example)
  have "appletv_playables demo_scraper_env [] [playable ''1500'' [''https://down.example/c.m3u8'']] [] []
     = (Inl URLError, [JStr ''https://down.example/c.m3u8''])"
    by (simp add: playable_fields asset_url try_load_def demo_env_load demo_load_down caught_def
        del: item_path.simps)
  with fields show ?thesis
    by (simp add: find_playlist_data_appletv_json_def)
qed

text \<open>
  C6 as the spec states it has every parse or transport error of a validation load
  swallowed. The guard catches \<open>ValueError\<close> and \<open>HTTPError\<close> only: when the host of the
  first candidate cannot be reached, the \<open>URLError\<close> of the load leaves the extraction,
  and the second candidate, which would load, is never tried.
\<close>

theorem validation_load_unreachable_counterexample:
  "find_playlist_data_itunes_json demo_scraper_env
     (itunes_json_page [buy_offer [asset ''https://down.example/c.m3u8'',
                                   asset ''https://hls.example/a.m3u8'']])
   = (Inl URLError, [JStr ''https://down.example/c.m3u8''])"
  by (simp add: find_playlist_data_itunes_json_def itunes_json_fields_def itunes_json_page_def
      buy_offer_def item_def [of "JDict _"] exc_bind_def strptime_example asset_url
      try_load_def demo_env_load demo_load_down caught_def)

text \<open>
  C6, amended. In the two JSON scrapers a validation load that raises \<open>ValueError\<close> (or a
  subclass) or \<open>HTTPError\<close> is swallowed and the scan goes on with the next candidate; a
  load that raises anything else ends the extraction with that exception. The
  addresses loaded are those of the first candidates, each loaded once, in order (no
  retry). For a whole run of either scraper: an exception of a caught class that
  leaves the scraper was raised by the field reads before the scan, with no load made;
  a load of the run that raised an exception of another class was the last load, and
  the scraper raises that exception to its caller; a load that raised an exception of
  a caught class is never the outcome of the scraper; and the addresses the run loads
  form a subsequence of the \<open>hlsUrl\<close> values of the response in document order, so
  that no candidate is loaded a second time.
\<close>

theorem validation_load_exceptions:
  "(item a ''hlsUrl'' = Inr url \<and> m3u8_load_nth env (length loaded) url = Inl e \<and> caught e \<longrightarrow>
      itunes_json_assets env (a # rest) loaded = itunes_json_assets env rest (loaded @ [url])
      \<and> appletv_offers env (a # rest) loaded = appletv_offers env rest (loaded @ [url]))
   \<and> (item a ''hlsUrl'' = Inr url \<and> m3u8_load_nth env (length loaded) url = Inl e \<and> \<not> caught e \<longrightarrow>
      itunes_json_assets env (a # rest) loaded = (Inl e, loaded @ [url])
      \<and> appletv_offers env (a # rest) loaded = (Inl e, loaded @ [url]))
   \<and> (\<exists>urls. snd (itunes_json_assets env candidates loaded) = loaded @ urls
         \<and> map Inr urls = map (\<lambda>c. item c ''hlsUrl'') (take (length urls) candidates))
   \<and> (\<exists>urls. snd (appletv_offers env candidates loaded) = loaded @ urls
         \<and> map Inr urls = map (\<lambda>c. item c ''hlsUrl'') (take (length urls) candidates))
   \<and> (fst (find_playlist_data_itunes_json env json_data) = Inl x \<and> caught x \<longrightarrow>
         itunes_json_fields json_data = Inl x
         \<and> snd (find_playlist_data_itunes_json env json_data) = [])
   \<and> (fst (find_playlist_data_appletv_json env json_data) = Inl x \<and> caught x \<longrightarrow>
         appletv_json_fields env json_data = Inl x
         \<and> snd (find_playlist_data_appletv_json env json_data) = [])
   \<and> (load_at env (snd (find_playlist_data_itunes_json env json_data)) k = Some (Inl x)
        \<and> \<not> caught x \<longrightarrow>
         fst (find_playlist_data_itunes_json env json_data) = Inl x
         \<and> Suc k = length (snd (find_playlist_data_itunes_json env json_data)))
   \<and> (load_at env (snd (find_playlist_data_appletv_json env json_data)) k = Some (Inl x)
        \<and> \<not> caught x \<longrightarrow>
         fst (find_playlist_data_appletv_json env json_data) = Inl x
         \<and> Suc k = length (snd (find_playlist_data_appletv_json env json_data)))
   \<and> (load_at env (snd (find_playlist_data_itunes_json env json_data)) k = Some (Inl x)
        \<and> caught x \<longrightarrow>
         fst (find_playlist_data_itunes_json env json_data) \<noteq> Inl x)
   \<and> (load_at env (snd (find_playlist_data_appletv_json env json_data)) k = Some (Inl x)
        \<and> caught x \<longrightarrow>
         fst (find_playlist_data_appletv_json env json_data) \<noteq> Inl x)
   \<and> (itunes_json_fields json_data = Inr (itunes_id, movie_title, year, offers) \<longrightarrow>
         subseq (snd (find_playlist_data_itunes_json env json_data)) (itunes_candidates offers))
   \<and> (appletv_json_fields env json_data = Inr (movie_title, year, playables) \<longrightarrow>
         subseq (snd (find_playlist_data_appletv_json env json_data))
           (appletv_candidates playables))"
proof (intro conjI impI)
  assume h: "item a ''hlsUrl'' = Inr url \<and> m3u8_load_nth env (length loaded) url = Inl e \<and> caught e"
  then have "try_load env loaded url = Skipped"
    by (auto simp: try_load_Skipped)
  with h show "itunes_json_assets env (a # rest) loaded = itunes_json_assets env rest (loaded @ [url])"
    and "appletv_offers env (a # rest) loaded = appletv_offers env rest (loaded @ [url])"
    by simp_all
next
  assume h: "item a ''hlsUrl'' = Inr url \<and> m3u8_load_nth env (length loaded) url = Inl e \<and> \<not> caught e"
  then have "try_load env loaded url = Raised e"
    by (simp add: try_load_Raised)
  with h show "itunes_json_assets env (a # rest) loaded = (Inl e, loaded @ [url])"
    and "appletv_offers env (a # rest) loaded = (Inl e, loaded @ [url])"
    by simp_all
next
  show "\<exists>urls. snd (itunes_json_assets env candidates loaded) = loaded @ urls
         \<and> map Inr urls = map (\<lambda>c. item c ''hlsUrl'') (take (length urls) candidates)"
    by (rule itunes_json_assets_loaded)
next
  show "\<exists>urls. snd (appletv_offers env candidates loaded) = loaded @ urls
         \<and> map Inr urls = map (\<lambda>c. item c ''hlsUrl'') (take (length urls) candidates)"
    by (rule appletv_offers_loaded)
next
  assume "fst (find_playlist_data_itunes_json env json_data) = Inl x \<and> caught x"
  then show "itunes_json_fields json_data = Inl x"
    and "snd (find_playlist_data_itunes_json env json_data) = []"
    using itunes_json_caught_before_loads [of env json_data x] by simp_all
next
  assume "fst (find_playlist_data_appletv_json env json_data) = Inl x \<and> caught x"
  then show "appletv_json_fields env json_data = Inl x"
    and "snd (find_playlist_data_appletv_json env json_data) = []"
    using appletv_json_caught_before_loads [of env json_data x] by simp_all
next
  assume "load_at env (snd (find_playlist_data_itunes_json env json_data)) k = Some (Inl x)
        \<and> \<not> caught x"
  then show "fst (find_playlist_data_itunes_json env json_data) = Inl x"
    and "Suc k = length (snd (find_playlist_data_itunes_json env json_data))"
    using itunes_json_uncaught [of env json_data k x] by simp_all
next
  assume "load_at env (snd (find_playlist_data_appletv_json env json_data)) k = Some (Inl x)
        \<and> \<not> caught x"
  then show "fst (find_playlist_data_appletv_json env json_data) = Inl x"
    and "Suc k = length (snd (find_playlist_data_appletv_json env json_data))"
    using appletv_json_uncaught [of env json_data k x] by simp_all
next
  assume "load_at env (snd (find_playlist_data_itunes_json env json_data)) k = Some (Inl x)
        \<and> caught x"
  then show "fst (find_playlist_data_itunes_json env json_data) \<noteq> Inl x"
    using itunes_json_swallowed [of env json_data k x] by simp
next
  assume "load_at env (snd (find_playlist_data_appletv_json env json_data)) k = Some (Inl x)
        \<and> caught x"
  then show "fst (find_playlist_data_appletv_json env json_data) \<noteq> Inl x"
    using appletv_json_swallowed [of env json_data k x] by simp
next
  assume "itunes_json_fields json_data = Inr (itunes_id, movie_title, year, offers)"
  then show "subseq (snd (find_playlist_data_itunes_json env json_data)) (itunes_candidates offers)"
    by (rule itunes_json_once)
next
  assume "appletv_json_fields env json_data = Inr (movie_title, year, playables)"
  then show "subseq (snd (find_playlist_data_appletv_json env json_data))
               (appletv_candidates playables)"
    by (rule appletv_json_once)
qed

theorem validation_load_exceptions_witness:
  "itunes_json_assets demo_scraper_env
     [asset ''https://gone.example/x.m3u8'', asset ''https://hls.example/a.m3u8''] []
     = (Inr (Some (JStr ''https://hls.example/a.m3u8'')),
        [JStr ''https://gone.example/x.m3u8'', JStr ''https://hls.example/a.m3u8''])
   \<and> appletv_offers demo_scraper_env
     [asset ''https://down.example/c.m3u8'', asset ''https://hls.example/a.m3u8''] []
     = (Inl URLError, [JStr ''https://down.example/c.m3u8''])
   \<and> load_at demo_scraper_env (snd (find_playlist_data_appletv_json demo_scraper_env
        (appletv_page (JInt 1625788800000)
           [(''p1'', playable ''1500'' [''https://down.example/c.m3u8''])]))) 0
     = Some (Inl URLError)
   \<and> fst (find_playlist_data_appletv_json demo_scraper_env
        (appletv_page (JInt 1625788800000)
           [(''p1'', playable ''1500'' [''https://down.example/c.m3u8''])]))
     = Inl URLError
   \<and> subseq (snd (find_playlist_data_appletv_json demo_scraper_env
        (appletv_page (JInt 1625788800000)
           [(''p1'', playable ''1500'' [''https://down.example/c.m3u8''])])))
       (appletv_candidates [playable ''1500'' [''https://down.example/c.m3u8'']])"
proof -
  let ?gone = "''https://gone.example/x.m3u8''" and ?a = "''https://hls.example/a.m3u8''"
    and ?down = "''https://down.example/c.m3u8''"
  let ?page = "appletv_page (JInt 1625788800000) [(''p1'', playable ''1500'' [?down])]"
  have skip: "item (asset ?gone) ''hlsUrl'' = Inr (JStr ?gone)
      \<and> m3u8_load_nth demo_scraper_env (length ([] :: json list)) (JStr ?gone) = Inl HTTPError
      \<and> caught HTTPError"
    by (simp add: asset_url demo_env_load demo_load_gone caught_def)
  have raise: "item (asset ?down) ''hlsUrl'' = Inr (JStr ?down)
      \<and> m3u8_load_nth demo_scraper_env (length ([] :: json list)) (JStr ?down) = Inl URLError
      \<and> \<not> caught URLError"
    by (simp add: asset_url demo_env_load demo_load_down caught_def)
  have "itunes_json_assets demo_scraper_env [asset ?gone, asset ?a] []
        = itunes_json_assets demo_scraper_env [asset ?a] ([] @ [JStr ?gone])"
    using validation_load_exceptions
      [of "asset ?gone" "JStr ?gone" demo_scraper_env "[]" HTTPError "[asset ?a]"] skip
    by blast
  moreover have "itunes_json_assets demo_scraper_env [asset ?a] ([] @ [JStr ?gone])
        = (Inr (Some (JStr ?a)), [JStr ?gone, JStr ?a])"
    by (simp add: asset_url try_load_def demo_env_load demo_load_a)
  ultimately have first: "itunes_json_assets demo_scraper_env [asset ?gone, asset ?a] []
        = (Inr (Some (JStr ?a)), [JStr ?gone, JStr ?a])"
    by simp
  have "appletv_offers demo_scraper_env [asset ?down, asset ?a] []
        = (Inl URLError, [] @ [JStr ?down])"
    using validation_load_exceptions
      [of "asset ?down" "JStr ?down" demo_scraper_env "[]" URLError "[asset ?a]"] raise
    by blast
  then have second: "appletv_offers demo_scraper_env [asset ?down, asset ?a] []
        = (Inl URLError, [JStr ?down])"
    by simp
  have third: "load_at demo_scraper_env (snd (find_playlist_data_appletv_json demo_scraper_env ?page)) 0
      = Some (Inl URLError)"
    by (simp add: unreachable_appletv_run load_at_def demo_env_load demo_load_down)
  have "\<not> caught URLError" by (simp add: caught_def)
  with third validation_load_exceptions
      [where env = demo_scraper_env and json_data = ?page and k = 0 and x = URLError]
  have fourth: "fst (find_playlist_data_appletv_json demo_scraper_env ?page) = Inl URLError"
    by blast
  have "appletv_json_fields demo_scraper_env ?page
     = Inr (JStr ''Example Movie'', 2021, [playable ''1500'' [?down]])"
    by (simp add: appletv_json_fields_def appletv_page_def item_def exc_bind_def
        appletv_release_year_def demo_env_utcoffset fromtimestamp_example)
  with validation_load_exceptions
      [where env = demo_scraper_env and json_data = ?page
        and movie_title = "JStr ''Example Movie''" and year = 2021
        and playables = "[playable ''1500'' [?down]]"]
  have fifth: "subseq (snd (find_playlist_data_appletv_json demo_scraper_env ?page))
      (appletv_candidates [playable ''1500'' [?down]])"
    by blast
  from first second third fourth fifth show ?thesis by (intro conjI)
qed

subsection \<open>No playlist that loads\<close>

text \<open>
  C9 as the spec states it covers every response that parses and has no asset with a
  valid playlist. Here the response parses and its only candidate cannot be loaded, the
  host being unreachable: the extraction raises the \<open>URLError\<close> of the load and returns
  no record.
\<close>

theorem no_valid_asset_unreachable_counterexample:
  "appletv_json_fields demo_scraper_env
     (appletv_page (JInt 1625788800000) [(''p1'', playable ''1500'' [''https://down.example/c.m3u8''])])
     = Inr (JStr ''Example Movie'', 2021, [playable ''1500'' [''https://down.example/c.m3u8'']])
   \<and> appletv_playable_shape (playable ''1500'' [''https://down.example/c.m3u8''])
   \<and> find_playlist_data_appletv_json demo_scraper_env
     (appletv_page (JInt 1625788800000) [(''p1'', playable ''1500'' [''https://down.example/c.m3u8''])])
     = (Inl URLError, [JStr ''https://down.example/c.m3u8''])"
proof -
  have fields: "appletv_json_fields demo_scraper_env
     (appletv_page (JInt 1625788800000) [(''p1'', playable ''1500'' [''https://down.example/c.m3u8''])])
     = Inr (JStr ''Example Movie'', 2021, [playable ''1500'' [''https://down.example/c.m3u8'']])"
    by (simp add: appletv_json_fields_def appletv_page_def item_def exc_bind_def
        appletv_release_year_def demo_env_utcoffset fromtimestamp_example)
  have shape: "appletv_playable_shape (playable ''1500'' [''https://down.example/c.m3u8''])"
    by (simp add: appletv_playable_shape_def playable_fields candidate_shape_def asset_url
        del: item_path.simps)
  have "appletv_playables demo_scraper_env [] [playable ''1500'' [''https://down.example/c.m3u8'']] [] []
     = (Inl URLError, [JStr ''https://down.example/c.m3u8''])"
    by (simp add: playable_fields asset_url try_load_def demo_env_load demo_load_down caught_def
        del: item_path.simps)
  with fields shape show ?thesis
    by (simp add: find_playlist_data_appletv_json_def)
qed

text \<open>
  C9, amended. When the response parses and every load that the run makes is refused
  with \<open>ValueError\<close> or \<open>HTTPError\<close> (so also when the run makes no load, there being no
  candidate), the two JSON scrapers do not raise: they return the record with the
  title and the release year of the response and an empty list of playlists. A load
  of the run that raises an exception of another class ends the extraction with that
  exception.
\<close>

theorem no_valid_asset_empty_list:
  "(itunes_json_fields json_data = Inr (itunes_id, movie_title, year, offers)
      \<and> list_all itunes_offer_shape offers
      \<and> (\<forall>k < length (snd (find_playlist_data_itunes_json env json_data)).
            \<exists>e. load_at env (snd (find_playlist_data_itunes_json env json_data)) k = Some (Inl e)
                \<and> caught e) \<longrightarrow>
        fst (find_playlist_data_itunes_json env json_data)
          = Inr \<lparr>data_source = ITUNES, name = movie_title, release_year = year, playlists = []\<rparr>)
   \<and> (appletv_json_fields env json_data = Inr (movie_title, year, playables)
      \<and> list_all appletv_playable_shape playables
      \<and> (\<forall>k < length (snd (find_playlist_data_appletv_json env json_data)).
            \<exists>e. load_at env (snd (find_playlist_data_appletv_json env json_data)) k = Some (Inl e)
                \<and> caught e) \<longrightarrow>
        fst (find_playlist_data_appletv_json env json_data)
          = Inr \<lparr>data_source = APPLETV, name = movie_title, release_year = year, playlists = []\<rparr>)
   \<and> (load_at env (snd (find_playlist_data_itunes_json env json_data)) k = Some (Inl x)
        \<and> \<not> caught x \<longrightarrow>
         fst (find_playlist_data_itunes_json env json_data) = Inl x)
   \<and> (load_at env (snd (find_playlist_data_appletv_json env json_data)) k = Some (Inl x)
        \<and> \<not> caught x \<longrightarrow>
         fst (find_playlist_data_appletv_json env json_data) = Inl x)"
  using itunes_json_refused [of json_data itunes_id movie_title year offers env]
    appletv_json_refused [of env json_data movie_title year playables]
    itunes_json_uncaught [of env json_data k x]
    appletv_json_uncaught [of env json_data k x]
  by blast

theorem no_valid_asset_empty_list_witness:
  "fst (find_playlist_data_itunes_json demo_scraper_env (itunes_json_page []))
     = Inr \<lparr>data_source = ITUNES, name = JStr ''Example Movie'', release_year = 2021, playlists = []\<rparr>
   \<and> snd (find_playlist_data_itunes_json demo_scraper_env
         (itunes_json_page [buy_offer [asset ''https://gone.example/x.m3u8'',
                                       asset ''https://gone.example/y.m3u8'']]))
     = [JStr ''https://gone.example/x.m3u8'', JStr ''https://gone.example/y.m3u8'']
   \<and> fst (find_playlist_data_itunes_json demo_scraper_env
         (itunes_json_page [buy_offer [asset ''https://gone.example/x.m3u8'',
                                       asset ''https://gone.example/y.m3u8'']]))
     = Inr \<lparr>data_source = ITUNES, name = JStr ''Example Movie'', release_year = 2021, playlists = []\<rparr>
   \<and> fst (find_playlist_data_appletv_json demo_scraper_env
         (appletv_page (JInt 1625788800000) [(''p1'', playable ''1500'' [''https://gone.example/x.m3u8''])]))
     = Inr \<lparr>data_source = APPLETV, name = JStr ''Example Movie'', release_year = 2021, playlists = []\<rparr>"
proof -
  let ?x = "''https://gone.example/x.m3u8''" and ?y = "''https://gone.example/y.m3u8''"
  let ?offers = "[buy_offer [asset ?x, asset ?y]]"
  let ?playables = "[playable ''1500'' [?x]]"
  let ?tv = "appletv_page (JInt 1625788800000) [(''p1'', playable ''1500'' [?x])]"
  have gone: "demo_load n (JStr ?x) = Inl HTTPError" "demo_load n (JStr ?y) = Inl HTTPError" for n
    by (simp_all add: demo_load_def)
  have caught: "caught HTTPError" by (simp add: caught_def)
  \<comment> \<open>no candidate at all\<close>
  have fields0: "itunes_json_fields (itunes_json_page [])
      = Inr (JStr ''1500'', JStr ''Example Movie'', 2021, [])"
    by (simp add: itunes_json_fields_def itunes_json_page_def item_def exc_bind_def strptime_example)
  have trace0: "snd (find_playlist_data_itunes_json demo_scraper_env (itunes_json_page [])) = []"
    by (simp add: find_playlist_data_itunes_json_def fields0)
  from no_valid_asset_empty_list [where json_data = "itunes_json_page []" and env = demo_scraper_env
      and itunes_id = "JStr ''1500''" and movie_title = "JStr ''Example Movie''" and year = 2021
      and offers = "[]"] fields0 trace0
  have a: "fst (find_playlist_data_itunes_json demo_scraper_env (itunes_json_page []))
     = Inr \<lparr>data_source = ITUNES, name = JStr ''Example Movie'', release_year = 2021, playlists = []\<rparr>"
    by simp
  \<comment> \<open>two candidates, both refused by the server\<close>
  have fields1: "itunes_json_fields (itunes_json_page ?offers)
      = Inr (JStr ''1500'', JStr ''Example Movie'', 2021, ?offers)"
    by (simp add: itunes_json_fields_def itunes_json_page_def item_def exc_bind_def strptime_example)
  have shape1: "list_all itunes_offer_shape ?offers"
    by (simp add: itunes_offer_shape_def buy_offer_def candidate_shape_def asset_url)
  have scan1: "itunes_json_offers demo_scraper_env ?offers [] = (Inr None, [JStr ?x, JStr ?y])"
    by (simp add: buy_offer_def asset_url try_load_def demo_env_load gone caught)
  have trace1: "snd (find_playlist_data_itunes_json demo_scraper_env (itunes_json_page ?offers))
      = [JStr ?x, JStr ?y]"
    by (simp add: find_playlist_data_itunes_json_def fields1 scan1 del: itunes_json_offers.simps)
  have refused1: "\<forall>k < length (snd (find_playlist_data_itunes_json demo_scraper_env
                                       (itunes_json_page ?offers))).
      \<exists>e. load_at demo_scraper_env (snd (find_playlist_data_itunes_json demo_scraper_env
                                            (itunes_json_page ?offers))) k = Some (Inl e)
          \<and> caught e"
    unfolding trace1
    by (auto simp: load_at_def demo_env_load gone caught less_Suc_eq nth_Cons')
  from no_valid_asset_empty_list [where json_data = "itunes_json_page ?offers"
      and env = demo_scraper_env and itunes_id = "JStr ''1500''"
      and movie_title = "JStr ''Example Movie''" and year = 2021 and offers = ?offers]
    fields1 shape1 refused1
  have b: "fst (find_playlist_data_itunes_json demo_scraper_env (itunes_json_page ?offers))
     = Inr \<lparr>data_source = ITUNES, name = JStr ''Example Movie'', release_year = 2021, playlists = []\<rparr>"
    by blast
  \<comment> \<open>one playable, its candidate refused\<close>
  have fields2: "appletv_json_fields demo_scraper_env ?tv
      = Inr (JStr ''Example Movie'', 2021, ?playables)"
    by (simp add: appletv_json_fields_def appletv_page_def item_def exc_bind_def
        appletv_release_year_def demo_env_utcoffset fromtimestamp_example)
  have shape2: "list_all appletv_playable_shape ?playables"
    by (simp add: appletv_playable_shape_def playable_fields candidate_shape_def asset_url
        del: item_path.simps)
  have scan2: "appletv_playables demo_scraper_env [] ?playables [] [] = (Inr [], [JStr ?x])"
    by (simp add: playable_fields asset_url try_load_def demo_env_load gone caught
        del: item_path.simps)
  have trace2: "snd (find_playlist_data_appletv_json demo_scraper_env ?tv) = [JStr ?x]"
    by (simp add: find_playlist_data_appletv_json_def fields2 scan2 del: appletv_playables.simps)
  have refused2: "\<forall>k < length (snd (find_playlist_data_appletv_json demo_scraper_env ?tv)).
      \<exists>e. load_at demo_scraper_env (snd (find_playlist_data_appletv_json demo_scraper_env ?tv)) k
            = Some (Inl e) \<and> caught e"
    unfolding trace2
    by (auto simp: load_at_def demo_env_load gone caught)
  from no_valid_asset_empty_list [where json_data = ?tv and env = demo_scraper_env
      and movie_title = "JStr ''Example Movie''" and year = 2021 and playables = ?playables]
    fields2 shape2 refused2
  have c: "fst (find_playlist_data_appletv_json demo_scraper_env ?tv)
     = Inr \<lparr>data_source = APPLETV, name = JStr ''Example Movie'', release_year = 2021, playlists = []\<rparr>"
    by blast
  from a trace1 b c show ?thesis by (intro conjI)
qed

subsection \<open>The address read in the iTunes HTML scraper\<close>

lemma itunes_html_assets_first_url:
  "\<exists>us. snd (itunes_html_assets env offer_item assets loaded) = loaded @ us
        \<and> (\<forall>u \<in> set us. first_asset_url offer_item = Inr u)
        \<and> (\<forall>url. fst (itunes_html_assets env offer_item assets loaded) = Inr (Some url) \<longrightarrow>
               first_asset_url offer_item = Inr url \<and> us \<noteq> [] \<and> last us = url)"
proof (induction assets arbitrary: loaded)
  case Nil
  show ?case by (intro exI [of _ "[]"]) simp
next
  case (Cons a assets)
  show ?case
  proof (cases "asset_has_url a")
    case False
    with Cons.IH [of loaded] show ?thesis by simp
  next
    case True
    show ?thesis
    proof (cases "first_asset_url offer_item")
      case (Inl e)
      with True show ?thesis by (intro exI [of _ "[]"]) simp
    next
      case (Inr url0)
      show ?thesis
      proof (cases "try_load env loaded url0")
        case Loaded
        with True Inr show ?thesis by (intro exI [of _ "[url0]"]) simp
      next
        case (Raised e)
        with True Inr show ?thesis by (intro exI [of _ "[url0]"]) simp
      next
        case Skipped
        from Cons.IH [of "loaded @ [url0]"] obtain us where
          us: "snd (itunes_html_assets env offer_item assets (loaded @ [url0])) = (loaded @ [url0]) @ us"
            "\<forall>u \<in> set us. first_asset_url offer_item = Inr u"
            "\<forall>url. fst (itunes_html_assets env offer_item assets (loaded @ [url0])) = Inr (Some url) \<longrightarrow>
               first_asset_url offer_item = Inr url \<and> us \<noteq> [] \<and> last us = url"
          by blast
        with True Inr Skipped show ?thesis
          by (intro exI [of _ "url0 # us"]) simp
      qed
    qed
  qed
qed

lemma itunes_html_assets_checks_only:
  "map asset_has_url assets = map asset_has_url assets' \<Longrightarrow>
   itunes_html_assets env offer_item assets loaded = itunes_html_assets env offer_item assets' loaded"
proof (induction assets arbitrary: assets' loaded)
  case Nil
  then show ?case by simp
next
  case (Cons a assets)
  then obtain b rest where assets': "assets' = b # rest" by (cases assets') auto
  with Cons.prems have same: "asset_has_url a = asset_has_url b"
    and rest: "map asset_has_url assets = map asset_has_url rest" by simp_all
  from Cons.IH [OF rest] same assets' show ?case
    by (simp split: sum.splits load_outcome.splits)
qed

lemma itunes_html_items_first_url:
  "\<exists>us. snd (itunes_html_items env items loaded) = loaded @ us
        \<and> (\<forall>u \<in> set us. \<exists>it \<in> set items. first_asset_url it = Inr u)
        \<and> (\<forall>url. fst (itunes_html_items env items loaded) = Inr (Some url) \<longrightarrow>
               (\<exists>it \<in> set items. first_asset_url it = Inr url) \<and> us \<noteq> [] \<and> last us = url)"
proof (induction items arbitrary: loaded)
  case Nil
  show ?case by (intro exI [of _ "[]"]) simp
next
  case (Cons it items)
  have skip: ?case if "itunes_html_items env (it # items) loaded = itunes_html_items env items loaded"
  proof -
    from Cons.IH [of loaded] obtain us where
      "snd (itunes_html_items env items loaded) = loaded @ us"
      "\<forall>u \<in> set us. \<exists>it \<in> set items. first_asset_url it = Inr u"
      "\<forall>url. fst (itunes_html_items env items loaded) = Inr (Some url) \<longrightarrow>
               (\<exists>it \<in> set items. first_asset_url it = Inr url) \<and> us \<noteq> [] \<and> last us = url"
      by blast
    with that show ?thesis
      by (intro exI [of _ us]) auto
  qed
  have stop: ?case if "itunes_html_items env (it # items) loaded = (Inl e, loaded)" for e
    using that by (intro exI [of _ "[]"]) simp
  show ?case
  proof (cases "dict_get it ''type''")
    case (Inl e)
    then show ?thesis by (intro stop [of e]) simp
  next
    case ty: (Inr item_type)
    show ?thesis
    proof (cases "is_str item_type \<and> item_type = JStr ''offer''")
      case False
      with ty show ?thesis by (intro skip) auto
    next
      case True
      show ?thesis
      proof (cases "dict_get it ''attributes''")
        case (Inl e)
        with ty True show ?thesis by (intro stop [of e]) simp
      next
        case at: (Inr attributes_value)
        show ?thesis
        proof (cases "\<exists>attributes assets. attributes_value = JDict attributes
                 \<and> dict_get (JDict attributes) ''assets'' = Inr (JList assets) \<and> length assets > 0")
          case False
          have "itunes_html_items env (it # items) loaded = itunes_html_items env items loaded"
          proof (cases attributes_value)
            case (JDict attributes)
            show ?thesis
            proof (cases "map_of attributes ''assets''")
              case None
              with ty True at JDict show ?thesis by simp
            next
              case (Some assets_value)
              with ty True at JDict False show ?thesis
                by (cases assets_value) auto
            qed
          qed (use ty True at in simp_all)
          then show ?thesis by (rule skip)
        next
          case True
          then obtain attributes assets where
            attrs: "attributes_value = JDict attributes"
            and assets: "dict_get (JDict attributes) ''assets'' = Inr (JList assets)"
            and nonempty: "length assets > 0"
            by blast
          from itunes_html_assets_first_url [of env it assets loaded] obtain vs where
            vs: "snd (itunes_html_assets env it assets loaded) = loaded @ vs"
              "\<forall>u \<in> set vs. first_asset_url it = Inr u"
              "\<forall>url. fst (itunes_html_assets env it assets loaded) = Inr (Some url) \<longrightarrow>
                 first_asset_url it = Inr url \<and> vs \<noteq> [] \<and> last vs = url"
            by blast
          obtain r loaded' where scan: "itunes_html_assets env it assets loaded = (r, loaded')"
            by (cases "itunes_html_assets env it assets loaded")
          with vs have loaded': "loaded' = loaded @ vs" by simp
          have step: "itunes_html_items env (it # items) loaded =
              (case r of Inr None \<Rightarrow> itunes_html_items env items loaded'
                       | Inr (Some url) \<Rightarrow> (Inr (Some url), loaded')
                       | Inl e \<Rightarrow> (Inl e, loaded'))"
            using ty \<open>is_str item_type \<and> item_type = JStr ''offer''\<close> at attrs assets nonempty scan
            by (auto split: sum.splits option.splits)
          show ?thesis
          proof (cases r)
            case (Inl e)
            with step loaded' vs(2) show ?thesis
              by (intro exI [of _ vs]) auto
          next
            case (Inr found)
            show ?thesis
            proof (cases found)
              case (Some url)
              with Inr step loaded' vs scan show ?thesis
                by (intro exI [of _ vs]) auto
            next
              case None
              from Cons.IH [of loaded'] obtain us where
                us: "snd (itunes_html_items env items loaded') = loaded' @ us"
                  "\<forall>u \<in> set us. \<exists>it \<in> set items. first_asset_url it = Inr u"
                  "\<forall>url. fst (itunes_html_items env items loaded') = Inr (Some url) \<longrightarrow>
                     (\<exists>it \<in> set items. first_asset_url it = Inr url) \<and> us \<noteq> [] \<and> last us = url"
                by blast
              with None Inr step loaded' vs(2) show ?thesis
                by (intro exI [of _ "vs @ us"]) auto
            qed
          qed
        qed
      qed
    qed
  qed
qed

lemma itunes_html_shoebox_first_url:
  assumes "fst (itunes_html_shoebox env itunes_id shoebox_data) = Inr movie"
    and "PlaylistData i u \<in> set (playlists movie)"
  shows "\<exists>movie_title year items.
           exc_bind (subscript shoebox_data (JStr itunes_id)) itunes_html_fields
             = Inr (movie_title, year, items)
           \<and> (\<exists>it \<in> set items. first_asset_url it = Inr u)
           \<and> (\<forall>v \<in> set (snd (itunes_html_shoebox env itunes_id shoebox_data)).
                  \<exists>it \<in> set items. first_asset_url it = Inr v)
           \<and> snd (itunes_html_shoebox env itunes_id shoebox_data) \<noteq> []
           \<and> last (snd (itunes_html_shoebox env itunes_id shoebox_data)) = u"
proof -
  from assms(1) obtain included where
    inc: "exc_bind (subscript shoebox_data (JStr itunes_id)) (\<lambda>entry. dict_get entry ''included'')
            = Inr included" "is_list included"
    by (auto simp: itunes_html_shoebox_def split: sum.splits if_splits)
  from assms(1) inc obtain movie_title year items where
    fields: "exc_bind (subscript shoebox_data (JStr itunes_id)) itunes_html_fields
               = Inr (movie_title, year, items)"
    by (auto simp: itunes_html_shoebox_def split: sum.splits)
  obtain r loaded where scan: "itunes_html_items env items [] = (r, loaded)"
    by (cases "itunes_html_items env items []")
  from assms inc fields scan have r: "r = Inr (Some u)"
    by (auto simp: itunes_html_shoebox_def split: sum.splits option.splits)
  with inc fields scan have out: "snd (itunes_html_shoebox env itunes_id shoebox_data) = loaded"
    by (simp add: itunes_html_shoebox_def)
  from itunes_html_items_first_url [of env items "[]"] scan r
  have "(\<forall>v \<in> set loaded. \<exists>it \<in> set items. first_asset_url it = Inr v)"
    and "\<exists>it \<in> set items. first_asset_url it = Inr u" and "loaded \<noteq> []"
    and "last loaded = u"
    by auto
  with fields out show ?thesis by auto
qed

lemma asset_has_url_asset: "asset_has_url (asset url)"
  by (simp add: asset_has_url_def asset_def)

lemma first_asset_url_html_offer:
  "first_asset_url (html_offer (asset url # others)) = Inr (JStr url)"
  by (simp add: first_asset_url_def html_offer_def asset_def item_def exc_bind_def seq_index_def)

text \<open>
  C10. In the iTunes HTML scraper the address that is loaded and the address that is
  returned are always the \<open>hlsUrl\<close> of the first asset of the offer item. Every address
  the loop over the assets of an item loads is that one, and so is the address it
  returns; the assets the loop goes through matter only through the test made on each
  (two asset lists that pass and fail the test at the same positions give the same
  run); and an entry of the returned record holds the first-asset address of an
  included item of the page, which is also the last address loaded.
\<close>

theorem itunes_html_first_asset_url:
  "(\<exists>us. snd (itunes_html_assets env offer_item assets loaded) = loaded @ us
        \<and> (\<forall>u \<in> set us. first_asset_url offer_item = Inr u)
        \<and> (\<forall>url. fst (itunes_html_assets env offer_item assets loaded) = Inr (Some url) \<longrightarrow>
               first_asset_url offer_item = Inr url \<and> us \<noteq> [] \<and> last us = url))
   \<and> (map asset_has_url assets = map asset_has_url assets' \<longrightarrow>
        itunes_html_assets env offer_item assets loaded
          = itunes_html_assets env offer_item assets' loaded)
   \<and> (fst (itunes_html_shoebox env itunes_id shoebox_data) = Inr movie
        \<and> PlaylistData i u \<in> set (playlists movie) \<longrightarrow>
        (\<exists>movie_title year items.
           exc_bind (subscript shoebox_data (JStr itunes_id)) itunes_html_fields
             = Inr (movie_title, year, items)
           \<and> (\<exists>it \<in> set items. first_asset_url it = Inr u)
           \<and> (\<forall>v \<in> set (snd (itunes_html_shoebox env itunes_id shoebox_data)).
                  \<exists>it \<in> set items. first_asset_url it = Inr v)
           \<and> snd (itunes_html_shoebox env itunes_id shoebox_data) \<noteq> []
           \<and> last (snd (itunes_html_shoebox env itunes_id shoebox_data)) = u))"
  using itunes_html_assets_first_url [of env offer_item assets loaded]
    itunes_html_assets_checks_only [of assets assets' env offer_item loaded]
    itunes_html_shoebox_first_url [of env itunes_id shoebox_data movie i u]
  by blast

theorem itunes_html_first_asset_url_witness:
  "itunes_html_assets demo_scraper_env
     (html_offer [asset ''https://gone.example/x.m3u8'', asset ''https://hls.example/a.m3u8''])
     [asset ''https://gone.example/x.m3u8'', asset ''https://hls.example/a.m3u8''] []
   = (Inr None, [JStr ''https://gone.example/x.m3u8'', JStr ''https://gone.example/x.m3u8''])
   \<and> itunes_html_assets demo_scraper_env
     (html_offer [asset ''https://gone.example/x.m3u8'', asset ''https://hls.example/a.m3u8''])
     [asset ''https://hls.example/b.m3u8'', asset ''https://hls.example/b.m3u8''] []
   = (Inr None, [JStr ''https://gone.example/x.m3u8'', JStr ''https://gone.example/x.m3u8''])
   \<and> first_asset_url
       (html_offer [asset ''https://hls.example/a.m3u8'', asset ''https://hls.example/b.m3u8''])
     = Inr (JStr ''https://hls.example/a.m3u8'')"
proof -
  let ?gone = "''https://gone.example/x.m3u8''" and ?a = "''https://hls.example/a.m3u8''"
    and ?b = "''https://hls.example/b.m3u8''"
  let ?it = "html_offer [asset ?gone, asset ?a]"
  let ?it2 = "html_offer [asset ?a, asset ?b]"
  have run: "itunes_html_assets demo_scraper_env ?it [asset ?gone, asset ?a] []
      = (Inr None, [JStr ?gone, JStr ?gone])"
    by (simp add: asset_has_url_asset first_asset_url_html_offer try_load_def demo_env_load
        demo_load_gone caught_def)
  have checks: "map asset_has_url [asset ?gone, asset ?a] = map asset_has_url [asset ?b, asset ?b]"
    by (simp add: asset_has_url_asset)
  from itunes_html_first_asset_url [of demo_scraper_env ?it "[asset ?gone, asset ?a]" "[]"
      "[asset ?b, asset ?b]"] checks
  have same: "itunes_html_assets demo_scraper_env ?it [asset ?gone, asset ?a] []
      = itunes_html_assets demo_scraper_env ?it [asset ?b, asset ?b] []"
    by blast
  have run2: "itunes_html_assets demo_scraper_env ?it2 [asset ?a, asset ?b] []
      = (Inr (Some (JStr ?a)), [JStr ?a])"
    by (simp add: asset_has_url_asset first_asset_url_html_offer try_load_def demo_env_load
        demo_load_a)
  from itunes_html_first_asset_url [of demo_scraper_env ?it2 "[asset ?a, asset ?b]" "[]"] run2
  have first: "first_asset_url ?it2 = Inr (JStr ?a)"
    by auto
  from run same first show ?thesis by simp
qed

end
